theory Spec2Isabelle
  imports Main "HOL-Library.Multiset"
begin

section \<open>Exceptions and results\<close>

text \<open>
  The scheduler is a Python program. Every place where the interpreter or a library can
  raise is a branch of the model: a function that may raise returns \<open>exn + 'a\<close>, with
  \<open>Inl\<close> carrying the exception that propagates to the caller.
\<close>

datatype exn =
    TypeError
  | KeyError
  | IndexError
  | ValueError
  | ConnectionError
  | RegexError
  | ApiException

section \<open>Dates and times\<close>

text \<open>
  A naive \<open>datetime\<close> value, with the fields of Python's class. The arithmetic follows the
  pure Python implementation of the \<open>datetime\<close> module: a date is converted to its proleptic
  Gregorian ordinal, and the difference of two datetimes is a \<open>timedelta\<close>, kept here as
  its total number of microseconds.
\<close>

record datetime =
  year :: nat
  month :: nat
  day :: nat
  hour :: nat
  minute :: nat
  second :: nat
  microsecond :: nat

definition is_leap :: "nat \<Rightarrow> bool" where
  "is_leap y = (y mod 4 = 0 \<and> (y mod 100 \<noteq> 0 \<or> y mod 400 = 0))"

definition days_in_month :: "nat \<Rightarrow> nat \<Rightarrow> nat" where
  "days_in_month y m =
     (if m = 2 \<and> is_leap y then 29
      else [0, 31, 28, 31, 30, 31, 30, 31, 31, 30, 31, 30, 31] ! m)"

definition days_before_year :: "nat \<Rightarrow> nat" where
  "days_before_year y = (y - 1) * 365 + (y - 1) div 4 - (y - 1) div 100 + (y - 1) div 400"

definition days_before_month :: "nat \<Rightarrow> nat \<Rightarrow> nat" where
  "days_before_month y m =
     [0, 0, 31, 59, 90, 120, 151, 181, 212, 243, 273, 304, 334] ! m
       + (if m > 2 \<and> is_leap y then 1 else 0)"

definition ymd2ord :: "nat \<Rightarrow> nat \<Rightarrow> nat \<Rightarrow> nat" where
  "ymd2ord y m d = days_before_year y + days_before_month y m + d"

text \<open>
  The constructor \<open>datetime(year, month, day, hour, minute, second, microsecond)\<close> checks
  the range of every field and raises \<open>ValueError\<close> outside it.
\<close>

definition make_datetime ::
  "nat \<Rightarrow> nat \<Rightarrow> nat \<Rightarrow> nat \<Rightarrow> nat \<Rightarrow> nat \<Rightarrow> nat \<Rightarrow> exn + datetime" where
  "make_datetime y m d hh mm ss us =
     (if 1 \<le> y \<and> y \<le> 9999 \<and> 1 \<le> m \<and> m \<le> 12 \<and> 1 \<le> d \<and> d \<le> days_in_month y m
         \<and> hh \<le> 23 \<and> mm \<le> 59 \<and> ss \<le> 59 \<and> us \<le> 999999
      then Inr \<lparr>year = y, month = m, day = d, hour = hh, minute = mm, second = ss,
                microsecond = us\<rparr>
      else Inl ValueError)"

definition to_micros :: "datetime \<Rightarrow> int" where
  "to_micros t =
     ((int (ymd2ord (year t) (month t) (day t)) * 86400
        + int (hour t) * 3600 + int (minute t) * 60 + int (second t)) * 1000000)
      + int (microsecond t)"

text \<open>\<open>a - b\<close> on datetimes: the timedelta, in microseconds.\<close>

definition datetime_sub :: "datetime \<Rightarrow> datetime \<Rightarrow> int" where
  "datetime_sub a b = to_micros a - to_micros b"

definition timedelta_minutes :: "int \<Rightarrow> int" where
  "timedelta_minutes n = n * 60 * 1000000"

definition timedelta_weeks :: "int \<Rightarrow> int" where
  "timedelta_weeks n = n * 7 * 86400 * 1000000"

section \<open>Parsing a timestamp\<close>

text \<open>
  \<open>datetime.strptime(s, '%Y-%m-%d %H:%M:%S.%f')\<close> is library code. The library turns the
  format into a regular expression, one capture group per directive, and matches it at the
  start of the string by backtracking: alternatives are tried in the order written, a
  repetition is greedy, and the first match found is taken. The pieces below are those of
  that regular expression; a character class is written as the string of its members.
\<close>

datatype piece =
    Lit char
  | Group "string list list"
  | Spaces
  | Digits16

definition digits :: string where
  "digits = ''0123456789''"

definition digits19 :: string where
  "digits19 = ''123456789''"

definition is_digit :: "char \<Rightarrow> bool" where
  "is_digit c = (c \<in> set digits)"

text \<open>The characters that \<open>\s\<close> matches, among the characters below 256.\<close>

definition is_space :: "char \<Rightarrow> bool" where
  "is_space c =
     (let n = (of_char c :: nat)
      in (9 \<le> n \<and> n \<le> 13) \<or> (28 \<le> n \<and> n \<le> 32) \<or> n = 133 \<or> n = 160)"

fun fits :: "string list \<Rightarrow> string \<Rightarrow> bool" where
  "fits [] s = True"
| "fits (cl # cls) [] = False"
| "fits (cl # cls) (c # s) = (c \<in> set cl \<and> fits cls s)"

fun first_some :: "'a option list \<Rightarrow> 'a option" where
  "first_some [] = None"
| "first_some (None # xs) = first_some xs"
| "first_some (Some x # xs) = Some x"

text \<open>
  \<open>re_match ps s\<close> is the first match of the pieces \<open>ps\<close> at the start of \<open>s\<close>: the texts of
  the groups, and what is left of \<open>s\<close> after the match.
\<close>

fun re_match :: "piece list \<Rightarrow> string \<Rightarrow> (string list \<times> string) option" where
  "re_match [] s = Some ([], s)"
| "re_match (Lit c # ps) s =
     (case s of [] \<Rightarrow> None | x # xs \<Rightarrow> if x = c then re_match ps xs else None)"
| "re_match (Group alts # ps) s =
     first_some (map (\<lambda>alt.
        if fits alt s
        then (case re_match ps (drop (length alt) s) of
                None \<Rightarrow> None
              | Some (gs, r) \<Rightarrow> Some (take (length alt) s # gs, r))
        else None) alts)"
| "re_match (Spaces # ps) s =
     first_some (map (\<lambda>k. re_match ps (drop k s))
        (rev [1 ..< Suc (length (takeWhile is_space s))]))"
| "re_match (Digits16 # ps) s =
     first_some (map (\<lambda>k.
        case re_match ps (drop k s) of
          None \<Rightarrow> None
        | Some (gs, r) \<Rightarrow> Some (take k s # gs, r))
        (rev [1 ..< Suc (min 6 (length (takeWhile is_digit s)))]))"

text \<open>The regular expression of the format \<open>'%Y-%m-%d %H:%M:%S.%f'\<close>.\<close>

definition format_regex :: "piece list" where
  "format_regex =
     [Group [[digits, digits, digits, digits]],
      Lit (CHR ''-''),
      Group [[''1'', ''012''], [''0'', digits19], [digits19]],
      Lit (CHR ''-''),
      Group [[''3'', ''01''], [''12'', digits], [''0'', digits19], [digits19],
             ['' '', digits19]],
      Spaces,
      Group [[''2'', ''0123''], [''01'', digits], [digits]],
      Lit (CHR '':''),
      Group [[''012345'', digits], [digits]],
      Lit (CHR '':''),
      Group [[''6'', ''01''], [''012345'', digits], [digits]],
      Lit (CHR ''.''),
      Digits16]"

text \<open>\<open>int(s)\<close> on the text of a group: decimal digits, with the blank a day may start with.\<close>

definition digit_val :: "char \<Rightarrow> nat" where
  "digit_val c = (of_char c :: nat) - 48"

definition int_of_str :: "string \<Rightarrow> nat" where
  "int_of_str s = foldl (\<lambda>n c. 10 * n + digit_val c) 0 (filter is_digit s)"

text \<open>The fraction is padded with zeros on the right to six digits before it is read.\<close>

definition pad6 :: "string \<Rightarrow> string" where
  "pad6 s = s @ replicate (6 - length s) (CHR ''0'')"

definition strptime :: "string \<Rightarrow> exn + datetime" where
  "strptime s =
     (case re_match format_regex s of
        None \<Rightarrow> Inl ValueError
      | Some (gs, r) \<Rightarrow>
          if r \<noteq> [] then Inl ValueError
          else (case gs of
                  [gy, gm, gd, gH, gM, gS, gf] \<Rightarrow>
                    make_datetime (int_of_str gy) (int_of_str gm) (int_of_str gd)
                      (int_of_str gH) (int_of_str gM) (int_of_str gS) (int_of_str (pad6 gf))
                | _ \<Rightarrow> Inl ValueError))"

text \<open>\<open>s.replace(a, b)\<close> for a one-character \<open>a\<close>.\<close>

definition str_replace :: "char \<Rightarrow> string \<Rightarrow> string \<Rightarrow> string" where
  "str_replace a b s = concat (map (\<lambda>c. if c = a then b else [c]) s)"

section \<open>Build executions and the activity classifier\<close>

text \<open>
  The entries of a \<open>values\<close> list in a response of the build host, by the fields the
  program reads: a branch has a \<open>name\<close>; a schedule has a \<open>cron_pattern\<close>, a
  \<open>target.selector.pattern\<close> and a \<open>uuid\<close>; a build execution (pipeline) has a
  \<open>created_on\<close> timestamp and a \<open>trigger.name\<close>. Reading a field that an entry does not
  have raises \<open>KeyError\<close>.
\<close>

datatype item =
    Branch string
  | Schedule string string string
  | Pipeline string string

definition created_on :: "item \<Rightarrow> exn + string" where
  "created_on x = (case x of Pipeline c t \<Rightarrow> Inr c | _ \<Rightarrow> Inl KeyError)"

definition trigger_name :: "item \<Rightarrow> exn + string" where
  "trigger_name x = (case x of Pipeline c t \<Rightarrow> Inr t | _ \<Rightarrow> Inl KeyError)"

text \<open>
  \<open>check_development_status\<close>. The loop reads the wall clock anew in every iteration;
  \<open>clock i\<close> is the reading taken in iteration \<open>i\<close> (the program formats the reading and
  parses it back, which gives the same naive datetime). \<open>recent_pipelines\<close> is the counter
  of the source.
\<close>

fun check_development_status_loop ::
  "(nat \<Rightarrow> datetime) \<Rightarrow> bool \<Rightarrow> nat \<Rightarrow> nat \<Rightarrow> item list \<Rightarrow> exn + bool" where
  "check_development_status_loop clock test i recent_pipelines [] = Inr False"
| "check_development_status_loop clock test i recent_pipelines (pipeline # rest) =
     (case created_on pipeline of
        Inl e \<Rightarrow> Inl e
      | Inr c \<Rightarrow>
          (case strptime (str_replace (CHR ''Z'') '''' (str_replace (CHR ''T'') '' '' c)) of
             Inl e \<Rightarrow> Inl e
           | Inr creation_date \<Rightarrow>
               let today = clock i;
                   recent = (if test then timedelta_minutes 2 else timedelta_weeks 1)
               in if datetime_sub today creation_date \<le> recent
                  then (case trigger_name pipeline of
                          Inl e \<Rightarrow> Inl e
                        | Inr t \<Rightarrow>
                            if t \<noteq> ''SCHEDULE'' \<or> recent_pipelines + 1 > 1 then Inr True
                            else check_development_status_loop clock test (i + 1)
                                   (recent_pipelines + 1) rest)
                  else check_development_status_loop clock test (i + 1)
                         recent_pipelines rest))"

definition check_development_status ::
  "(nat \<Rightarrow> datetime) \<Rightarrow> item list \<Rightarrow> bool \<Rightarrow> exn + bool" where
  "check_development_status clock pipelines test =
     check_development_status_loop clock test 0 0 pipelines"

text \<open>
  The notions the classifier's contract is stated with. \<open>creation_date p\<close> is the creation
  time of an execution whose timestamp the parser accepts; \<open>within_window now test p\<close> says
  that \<open>p\<close> was created no more than the recency window before \<open>now\<close> (the comparison of
  the source, \<open>today - creation_date <= recent\<close>); \<open>other_trigger p\<close> says that the trigger
  kind of \<open>p\<close> is not \<open>SCHEDULE\<close>.
\<close>

definition creation_date :: "item \<Rightarrow> datetime option" where
  "creation_date p =
     (case p of
        Pipeline c t \<Rightarrow>
          (case strptime (str_replace (CHR ''Z'') '''' (str_replace (CHR ''T'') '' '' c)) of
             Inr d \<Rightarrow> Some d
           | Inl e \<Rightarrow> None)
      | _ \<Rightarrow> None)"

definition window :: "bool \<Rightarrow> int" where
  "window test = (if test then timedelta_minutes 2 else timedelta_weeks 1)"

definition within_window :: "datetime \<Rightarrow> bool \<Rightarrow> item \<Rightarrow> bool" where
  "within_window now test p =
     (case creation_date p of
        Some d \<Rightarrow> datetime_sub now d \<le> window test
      | None \<Rightarrow> False)"

definition other_trigger :: "item \<Rightarrow> bool" where
  "other_trigger p = (case p of Pipeline c t \<Rightarrow> t \<noteq> ''SCHEDULE'' | _ \<Rightarrow> False)"

definition in_development :: "datetime \<Rightarrow> bool \<Rightarrow> item list \<Rightarrow> bool" where
  "in_development now test E =
     (2 \<le> length (filter (within_window now test) E)
      \<or> list_ex (\<lambda>p. within_window now test p \<and> other_trigger p) E)"

text \<open>
  The same condition with every execution judged against the clock reading of its own
  iteration, as the loop does: \<open>enumerate 0 E\<close> pairs each execution with the number of its
  iteration. \<open>steady clock test E\<close> says that no execution of \<open>E\<close> enters or leaves the window
  between the first reading and any reading of the loop.
\<close>

definition in_development_at :: "(nat \<Rightarrow> datetime) \<Rightarrow> bool \<Rightarrow> item list \<Rightarrow> bool" where
  "in_development_at clock test E =
     (2 \<le> length (filter (\<lambda>(i, p). within_window (clock i) test p) (enumerate 0 E))
      \<or> list_ex (\<lambda>(i, p). within_window (clock i) test p \<and> other_trigger p) (enumerate 0 E))"

definition steady :: "(nat \<Rightarrow> datetime) \<Rightarrow> bool \<Rightarrow> item list \<Rightarrow> bool" where
  "steady clock test E =
     list_all (\<lambda>p. list_all (\<lambda>i. within_window (clock i) test p = within_window (clock 0) test p)
                      [0 ..< length E]) E"

text \<open>Sample data: an evaluation instant and four executions.\<close>

definition sample_now :: datetime where
  "sample_now = \<lparr>year = 2024, month = 3, day = 10, hour = 12, minute = 0, second = 0,
                 microsecond = 0\<rparr>"

definition sample_push :: item where
  "sample_push = Pipeline ''2024-03-09T08:15:30.123456Z'' ''PUSH''"

definition sample_scheduled :: item where
  "sample_scheduled = Pipeline ''2024-03-09T13:00:00.000001Z'' ''SCHEDULE''"

definition sample_old :: item where
  "sample_old = Pipeline ''2024-02-20T09:30:00.5Z'' ''PUSH''"

definition sample_no_fraction :: item where
  "sample_no_fraction = Pipeline ''2024-03-09T08:15:30Z'' ''PUSH''"

text \<open>A clock that advances by one microsecond from reading to reading, and an execution
  created exactly one week before its first reading.\<close>

definition ticking_clock :: "nat \<Rightarrow> datetime" where
  "ticking_clock i = sample_now\<lparr>microsecond := i\<rparr>"

definition sample_edge :: item where
  "sample_edge = Pipeline ''2024-03-03T12:00:00.000000Z'' ''SCHEDULE''"

section \<open>The remote build host and the log\<close>

text \<open>
  A request as \<open>requests.request\<close> receives it. The payload of the creation request is the
  dictionary the program serialises; \<open>None\<close> in a branch field is Python's \<open>None\<close>
  (JSON \<open>null\<close>), which a failed default-branch lookup leaves there.
\<close>

datatype http_method = GET | POST | DELETE

record schedule_payload =
  payload_type :: string
  target_type :: string
  selector_pattern :: "string option"
  selector_type :: string
  ref_name :: "string option"
  ref_type :: string
  enabled :: bool
  payload_cron_pattern :: string

record request =
  verb :: http_method
  url :: string
  auth :: "string option \<times> string option"
  headers :: "(string \<times> string) list"
  params :: "(string \<times> string) list"
  payload :: "schedule_payload option"

text \<open>
  The body of a response, as \<open>json.loads(response.text)\<close> sees it: text that is not JSON
  (\<open>JSONDecodeError\<close>), an object with an \<open>error\<close> entry (with its message), or an object
  without one, with its \<open>values\<close> list when it has one.
\<close>

datatype body =
    NotJson
  | ErrorEnvelope string
  | Object "item list option"

record response =
  status_code :: nat
  reason :: string
  body :: body

datatype level = DEBUG | INFO | ERROR

text \<open>A page of the service catalog: an error answer, or the services, each with the URLs of
  its links.\<close>

datatype page =
    Errors "string list"
  | Data "string list list"

text \<open>
  The world the program runs in. \<open>SCHEDULE\<close> and \<open>WORKSPACE\<close> are the two module
  constants, \<open>BB_USER_ID\<close> and \<open>BB_APP_PASS\<close> the environment variables. \<open>server\<close> answers
  a request given the requests sent before it, or fails in transport; \<open>sent\<close> records every
  request in order, \<open>logged\<close> every logging call. \<open>catalog\<close> answers the request for a page
  of the service catalog and \<open>catalog_calls\<close> records the pages asked for. \<open>wall_clock i k\<close> is
  the wall clock read in iteration \<open>k\<close> of the classifier's loop for the \<open>i\<close>-th service.
\<close>

record world =
  SCHEDULE :: string
  WORKSPACE :: string
  BB_USER_ID :: "string option"
  BB_APP_PASS :: "string option"
  server :: "request list \<Rightarrow> request \<Rightarrow> exn + response"
  sent :: "request list"
  logged :: "(level \<times> string) list"
  catalog :: "nat \<Rightarrow> exn + page"
  catalog_calls :: "nat list"
  wall_clock :: "nat \<Rightarrow> nat \<Rightarrow> datetime"

definition logging :: "level \<Rightarrow> string \<Rightarrow> world \<Rightarrow> world" where
  "logging lvl msg w = w\<lparr>logged := logged w @ [(lvl, msg)]\<rparr>"

definition requests_request :: "request \<Rightarrow> world \<Rightarrow> (exn + response) \<times> world" where
  "requests_request r w = (server w (sent w) r, w\<lparr>sent := sent w @ [r]\<rparr>)"

definition get_bitbucket_credentials :: "world \<Rightarrow> string option \<times> string option" where
  "get_bitbucket_credentials w = (BB_USER_ID w, BB_APP_PASS w)"

definition repositories_url :: "world \<Rightarrow> string \<Rightarrow> string" where
  "repositories_url w repo_slug =
     ''https://api.bitbucket.org/2.0/repositories/'' @ WORKSPACE w @ ''/'' @ repo_slug"

section \<open>Schedule repository\<close>

definition branch_query :: string where
  "branch_query =
     ''name='' @ [CHR 0x22] @ ''main'' @ [CHR 0x22] @ '' OR name='' @ [CHR 0x22] @ ''master''
       @ [CHR 0x22]"

definition get_default_branch :: "string \<Rightarrow> world \<Rightarrow> (exn + string option) \<times> world" where
  "get_default_branch repo_slug w =
     (case requests_request
             \<lparr>verb = GET, url = repositories_url w repo_slug @ ''/refs/branches/'',
              auth = get_bitbucket_credentials w,
              headers = [(''Accept'', ''application/json'')],
              params = [(''q'', branch_query)], payload = None\<rparr> w of
        (Inl e, w1) \<Rightarrow> (Inl e, w1)
      | (Inr response, w1) \<Rightarrow>
          (case body response of
             NotJson \<Rightarrow>
               (Inr None,
                logging ERROR (''Failed to get default branch name: '' @ reason response) w1)
           | ErrorEnvelope message \<Rightarrow>
               (Inr None, logging ERROR (''Failed to get default branch name: '' @ message) w1)
           | Object None \<Rightarrow> (Inl KeyError, w1)
           | Object (Some branches) \<Rightarrow>
               (case branches of
                  [] \<Rightarrow> (Inl IndexError, w1)
                | Branch default_branch # _ \<Rightarrow> (Inr (Some default_branch), w1)
                | _ # _ \<Rightarrow> (Inl KeyError, w1))))"

definition get_schedules :: "string \<Rightarrow> world \<Rightarrow> (exn + item list option) \<times> world" where
  "get_schedules repo_slug w =
     (let w0 = logging DEBUG
                 (''Retrieving scheduled pipelines for repo: '' @ repo_slug @ ''...'') w
      in case requests_request
                \<lparr>verb = GET,
                 url = repositories_url w0 repo_slug @ ''/pipelines_config/schedules'',
                 auth = get_bitbucket_credentials w0,
                 headers = [(''Accept'', ''application/json'')],
                 params = [], payload = None\<rparr> w0 of
           (Inl e, w1) \<Rightarrow> (Inl e, w1)
         | (Inr response, w1) \<Rightarrow>
             (case body response of
                NotJson \<Rightarrow>
                  (Inr None,
                   logging ERROR (''Failed to retrieve scheduled pipelines: '' @ reason response)
                     w1)
              | ErrorEnvelope message \<Rightarrow>
                  (Inr None,
                   logging ERROR (''Failed to retrieve scheduled pipelines: '' @ message) w1)
              | Object None \<Rightarrow> (Inl KeyError, w1)
              | Object (Some schedules) \<Rightarrow> (Inr (Some schedules), w1)))"

text \<open>
  The test both loops apply to a schedule:
  \<open>schedule['cron_pattern'] == SCHEDULE and schedule['target']['selector']['pattern'] ==
  default_branch\<close>. An entry without these fields raises \<open>KeyError\<close>. A branch name never
  equals \<open>None\<close>.
\<close>

definition schedule_matches :: "world \<Rightarrow> string option \<Rightarrow> item \<Rightarrow> exn + bool" where
  "schedule_matches w default_branch schedule =
     (case schedule of
        Schedule cron_pattern pattern uuid \<Rightarrow>
          Inr (cron_pattern = SCHEDULE w \<and> Some pattern = default_branch)
      | _ \<Rightarrow> Inl KeyError)"

definition schedule_uuid_of :: "item \<Rightarrow> string" where
  "schedule_uuid_of schedule = (case schedule of Schedule c p uuid \<Rightarrow> uuid | _ \<Rightarrow> [])"

text \<open>How a loop body was left: by \<open>return\<close>, or by running on to the code after the loop
  (also by \<open>break\<close>).\<close>

datatype flow = Returned | Completed

definition delete_request :: "world \<Rightarrow> string \<Rightarrow> string \<Rightarrow> request" where
  "delete_request w repo_slug schedule_uuid =
     \<lparr>verb = DELETE,
      url = repositories_url w repo_slug @ ''/'' @ ''pipelines_config/schedules/''
              @ schedule_uuid,
      auth = get_bitbucket_credentials w,
      headers = [(''Accept'', ''application/json'')],
      params = [], payload = None\<rparr>"

fun delete_schedule_loop ::
  "string \<Rightarrow> string option \<Rightarrow> item list \<Rightarrow> world \<Rightarrow> (exn + flow) \<times> world" where
  "delete_schedule_loop repo_slug default_branch [] w = (Inr Completed, w)"
| "delete_schedule_loop repo_slug default_branch (schedule # rest) w =
     (case schedule_matches w default_branch schedule of
        Inl e \<Rightarrow> (Inl e, w)
      | Inr False \<Rightarrow> delete_schedule_loop repo_slug default_branch rest w
      | Inr True \<Rightarrow>
          (case requests_request (delete_request w repo_slug (schedule_uuid_of schedule)) w of
             (Inl e, w1) \<Rightarrow> (Inl e, w1)
           | (Inr response, w1) \<Rightarrow>
               (case body response of
                  ErrorEnvelope message \<Rightarrow>
                    (Inr Returned,
                     logging ERROR (''Failed to delete scheduled pipeline: '' @ message) w1)
                | NotJson \<Rightarrow>
                    if status_code response \<noteq> 204
                    then (Inr Returned,
                          logging ERROR
                            (''Failed to delete scheduled pipeline: '' @ reason response) w1)
                    else (Inr Completed, w1)
                | Object _ \<Rightarrow> (Inr Completed, w1))))"

definition delete_schedule :: "string \<Rightarrow> bool \<Rightarrow> world \<Rightarrow> (exn + unit) \<times> world" where
  "delete_schedule repo_slug dry_run w =
     (let w0 = logging DEBUG
                 (''Deleting scheduled pipeline for repo: '' @ repo_slug @ ''...'') w
      in case get_default_branch repo_slug w0 of
           (Inl e, w1) \<Rightarrow> (Inl e, w1)
         | (Inr default_branch, w1) \<Rightarrow>
             (case get_schedules repo_slug w1 of
                (Inl e, w2) \<Rightarrow> (Inl e, w2)
              | (Inr None, w2) \<Rightarrow>
                  if dry_run then (Inr (), logging ERROR [] w2)
                  else (Inr (), logging ERROR ''Failed to delete scheduled pipeline.'' w2)
              | (Inr (Some schedules), w2) \<Rightarrow>
                  if dry_run
                  then (Inr (),
                        logging INFO (''Eligible for Schedule Deletion: '' @ repo_slug) w2)
                  else (case delete_schedule_loop repo_slug default_branch schedules w2 of
                          (Inl e, w3) \<Rightarrow> (Inl e, w3)
                        | (Inr Returned, w3) \<Rightarrow> (Inr (), w3)
                        | (Inr Completed, w3) \<Rightarrow>
                            (Inr (),
                             logging DEBUG
                               (''Scheduled pipeline deleted for repo: '' @ repo_slug @ ''.'')
                               w3))))"

text \<open>
  The duplicate check of \<open>create_schedule\<close>: \<open>for schedule in schedules\<close>. The list is what
  \<open>get_schedules\<close> returned; iterating over \<open>None\<close> raises \<open>TypeError\<close>.
\<close>

fun create_schedule_loop ::
  "string option \<Rightarrow> item list \<Rightarrow> world \<Rightarrow> (exn + flow) \<times> world" where
  "create_schedule_loop default_branch [] w = (Inr Completed, w)"
| "create_schedule_loop default_branch (schedule # rest) w =
     (case schedule_matches w default_branch schedule of
        Inl e \<Rightarrow> (Inl e, w)
      | Inr True \<Rightarrow>
          (Inr Returned,
           logging ERROR ''Failed to create scheduled pipeline: this schedule already exists.''
             w)
      | Inr False \<Rightarrow> create_schedule_loop default_branch rest w)"

definition create_request :: "world \<Rightarrow> string \<Rightarrow> string option \<Rightarrow> request" where
  "create_request w repo_slug default_branch =
     \<lparr>verb = POST,
      url = repositories_url w repo_slug @ ''/pipelines_config/schedules'',
      auth = get_bitbucket_credentials w,
      headers = [(''Accept'', ''application/json''), (''Content-Type'', ''application/json'')],
      params = [],
      payload = Some \<lparr>payload_type = ''pipeline_schedule'',
                      target_type = ''pipeline_ref_target'',
                      selector_pattern = default_branch,
                      selector_type = ''branches'',
                      ref_name = default_branch,
                      ref_type = ''branch'',
                      enabled = True,
                      payload_cron_pattern = SCHEDULE w\<rparr>\<rparr>"

definition create_schedule :: "string \<Rightarrow> bool \<Rightarrow> world \<Rightarrow> (exn + unit) \<times> world" where
  "create_schedule repo_slug dry_run w =
     (let w0 = logging DEBUG
                 (''Creating scheduled pipeline for repo: '' @ repo_slug @ ''...'') w
      in case get_default_branch repo_slug w0 of
           (Inl e, w1) \<Rightarrow> (Inl e, w1)
         | (Inr default_branch, w1) \<Rightarrow>
             (case get_schedules repo_slug w1 of
                (Inl e, w2) \<Rightarrow> (Inl e, w2)
              | (Inr None, w2) \<Rightarrow> (Inl TypeError, w2)
              | (Inr (Some schedules), w2) \<Rightarrow>
                  (case create_schedule_loop default_branch schedules w2 of
                     (Inl e, w3) \<Rightarrow> (Inl e, w3)
                   | (Inr Returned, w3) \<Rightarrow> (Inr (), w3)
                   | (Inr Completed, w3) \<Rightarrow>
                       if dry_run
                       then (Inr (),
                             logging INFO (''Eligible for Scheduling: '' @ repo_slug) w3)
                       else (case requests_request
                                    (create_request w3 repo_slug default_branch) w3 of
                               (Inl e, w4) \<Rightarrow> (Inl e, w4)
                             | (Inr response, w4) \<Rightarrow>
                                 (case body response of
                                    ErrorEnvelope message \<Rightarrow>
                                      (Inr (),
                                       logging ERROR
                                         (''Failed to create scheduled pipeline: '' @ message)
                                         w4)
                                  | NotJson \<Rightarrow>
                                      (Inr (),
                                       logging ERROR
                                         (''Failed to create scheduled pipeline: ''
                                            @ reason response) w4)
                                  | Object _ \<Rightarrow>
                                      (Inr (),
                                       logging DEBUG
                                         (''Scheduled pipeline created for repo: '' @ repo_slug
                                            @ ''.'') w4))))))"

section \<open>Build history reader\<close>

definition get_latest_pipelines :: "string \<Rightarrow> world \<Rightarrow> (exn + item list option) \<times> world" where
  "get_latest_pipelines repo_slug w =
     (let w0 = logging DEBUG
                 (''Retrieving latest pipelines for repo: '' @ repo_slug @ ''...'') w
      in case requests_request
                \<lparr>verb = GET, url = repositories_url w0 repo_slug @ ''/pipelines'',
                 auth = get_bitbucket_credentials w0,
                 headers = [(''Accept'', ''application/json'')],
                 params = [(''sort'', ''-created_on'')], payload = None\<rparr> w0 of
           (Inl e, w1) \<Rightarrow> (Inl e, w1)
         | (Inr response, w1) \<Rightarrow>
             (case body response of
                NotJson \<Rightarrow>
                  (Inr None,
                   logging ERROR (''Failed to get latest pipelines: '' @ reason response) w1)
              | ErrorEnvelope message \<Rightarrow>
                  (Inr None, logging ERROR (''Failed to get latest pipelines: '' @ message) w1)
              | Object None \<Rightarrow> (Inl KeyError, w1)
              | Object (Some pipelines) \<Rightarrow> (Inr (Some pipelines), w1)))"

section \<open>Override filter\<close>

text \<open>
  \<open>re\<close> is library code. \<open>re_compile p\<close> is the compiled pattern, given as the test
  \<open>pattern.search(s) is not None\<close> it defines on strings, or the error that compiling \<open>p\<close>
  raises.
\<close>

type_synonym regex_engine = "string \<Rightarrow> exn + (string \<Rightarrow> bool)"

fun match_override :: "regex_engine \<Rightarrow> string \<Rightarrow> string list \<Rightarrow> exn + bool" where
  "match_override re_compile repo_slug [] = Inr False"
| "match_override re_compile repo_slug (pattern # rest) =
     (case re_compile pattern of
        Inl e \<Rightarrow> Inl e
      | Inr compiled \<Rightarrow>
          if compiled repo_slug then Inr True
          else match_override re_compile repo_slug rest)"

section \<open>Service catalog client\<close>

text \<open>\<open>s.split(sep)\<close> for a one-character separator.\<close>

fun split_on :: "char \<Rightarrow> string \<Rightarrow> string list" where
  "split_on sep [] = [[]]"
| "split_on sep (c # s) =
     (if c = sep then [] # split_on sep s
      else (case split_on sep s of
              [] \<Rightarrow> [[c]]
            | x # xs \<Rightarrow> (c # x) # xs))"

text \<open>
  \<open>service['attributes']['schema']['links'][-1]['url'].split("/")[4]\<close>, for a service
  given by the URLs of its links. Both subscripts raise \<open>IndexError\<close> out of range.
\<close>

definition url_component_4 :: "string list \<Rightarrow> exn + string" where
  "url_component_4 links =
     (if links = [] then Inl IndexError
      else let url_components = split_on (CHR ''/'') (last links)
           in if length url_components \<le> 4 then Inl IndexError
              else Inr (url_components ! 4))"

text \<open>The \<open>for service in response['data']\<close> loop; \<open>services\<close> is the list being filled.\<close>

fun collect_services :: "string list list \<Rightarrow> string list \<Rightarrow> exn + string list" where
  "collect_services [] services = Inr services"
| "collect_services (service # rest) services =
     (case url_component_4 service of
        Inl e \<Rightarrow> Inl e
      | Inr component \<Rightarrow>
          if component \<noteq> ''workspace''
          then collect_services rest (services @ [component])
          else collect_services rest services)"

text \<open>
  The \<open>while True\<close> loop of \<open>get_active_services\<close>. Nothing bounds the number of pages the
  catalog serves, so the loop takes fuel: \<open>None\<close> says that the fuel ran out before the
  loop was left.
\<close>

fun get_active_services_loop ::
  "nat \<Rightarrow> nat \<Rightarrow> string list \<Rightarrow> world \<Rightarrow> ((exn + string list) \<times> world) option" where
  "get_active_services_loop 0 page_number services w = None"
| "get_active_services_loop (Suc fuel) page_number services w =
     (let w1 = w\<lparr>catalog_calls := catalog_calls w @ [page_number]\<rparr>
      in case catalog w page_number of
           Inl e \<Rightarrow> Some (Inl e, w1)
         | Inr (Errors errors) \<Rightarrow>
             (case errors of
                [] \<Rightarrow> Some (Inl IndexError, w1)
              | e # _ \<Rightarrow> Some (Inr services, logging ERROR e w1))
         | Inr (Data data) \<Rightarrow>
             (case collect_services data services of
                Inl e \<Rightarrow> Some (Inl e, w1)
              | Inr services' \<Rightarrow>
                  if data = [] then Some (Inr services', w1)
                  else get_active_services_loop fuel (page_number + 1) services' w1))"

definition get_active_services ::
  "nat \<Rightarrow> world \<Rightarrow> ((exn + string list) \<times> world) option" where
  "get_active_services fuel w =
     get_active_services_loop fuel 0 [] (logging INFO ''Retrieving active services...'' w)"

section \<open>Reconciler\<close>

text \<open>
  The first statement of \<open>process_services\<close>: \<open>if repositories: active_services =
  repositories else: active_services = get_active_services()\<close>. The handler passes \<open>None\<close>
  for a list the caller left out; \<open>None\<close> and the empty list are both false.
\<close>

definition active_services ::
  "nat \<Rightarrow> string list option \<Rightarrow> world \<Rightarrow> ((exn + string list) \<times> world) option" where
  "active_services fuel repositories w =
     (case repositories of
        Some (r # rs) \<Rightarrow> Some (Inr (r # rs), w)
      | _ \<Rightarrow> get_active_services fuel w)"

text \<open>The test \<open>if override: if match_override(service, override)\<close>.\<close>

definition overridden :: "regex_engine \<Rightarrow> string list option \<Rightarrow> string \<Rightarrow> exn + bool" where
  "overridden re_compile override service =
     (case override of
        Some (p # ps) \<Rightarrow> match_override re_compile service (p # ps)
      | _ \<Rightarrow> Inr False)"

text \<open>The body of the loop over the services; \<open>i\<close> is the index of \<open>enumerate\<close>.\<close>

definition process_service ::
  "regex_engine \<Rightarrow> string list option \<Rightarrow> bool \<Rightarrow> bool \<Rightarrow> nat \<Rightarrow> string \<Rightarrow> world
     \<Rightarrow> (exn + unit) \<times> world" where
  "process_service re_compile override dry_run test i service w =
     (let w0 = logging INFO (''Processing service: '' @ service @ ''...'') w
      in case overridden re_compile override service of
           Inl e \<Rightarrow> (Inl e, w0)
         | Inr True \<Rightarrow>
             (Inr (),
              logging INFO
                (''Bitbucket repo for service '' @ service @ '' overridden. Skipping...'') w0)
         | Inr False \<Rightarrow>
             (case get_latest_pipelines service w0 of
                (Inl e, w1) \<Rightarrow> (Inl e, w1)
              | (Inr None, w1) \<Rightarrow>
                  (Inr (),
                   logging INFO
                     (''No pipelines found in repo for service: '' @ service
                        @ ''. Skipping...'') w1)
              | (Inr (Some []), w1) \<Rightarrow>
                  (Inr (),
                   logging INFO
                     (''No pipelines found in repo for service: '' @ service
                        @ ''. Skipping...'') w1)
              | (Inr (Some (p # ps)), w1) \<Rightarrow>
                  (case check_development_status (wall_clock w1 i) (p # ps) test of
                     Inl e \<Rightarrow> (Inl e, w1)
                   | Inr in_dev \<Rightarrow>
                       if \<not> in_dev then create_schedule service dry_run w1
                       else delete_schedule service dry_run w1)))"

fun process_services_loop ::
  "regex_engine \<Rightarrow> string list option \<Rightarrow> bool \<Rightarrow> bool \<Rightarrow> nat \<Rightarrow> string list \<Rightarrow> world
     \<Rightarrow> (exn + unit) \<times> world" where
  "process_services_loop re_compile override dry_run test i [] w = (Inr (), w)"
| "process_services_loop re_compile override dry_run test i (service # rest) w =
     (case process_service re_compile override dry_run test i service w of
        (Inl e, w') \<Rightarrow> (Inl e, w')
      | (Inr u, w') \<Rightarrow>
          process_services_loop re_compile override dry_run test (i + 1) rest w')"

definition process_services ::
  "regex_engine \<Rightarrow> nat \<Rightarrow> string list option \<Rightarrow> string list option \<Rightarrow> bool \<Rightarrow> bool \<Rightarrow> world
     \<Rightarrow> ((exn + unit) \<times> world) option" where
  "process_services re_compile fuel repositories override dry_run test w =
     (case active_services fuel repositories (logging INFO ''Processing services...'' w) of
        None \<Rightarrow> None
      | Some (Inl e, w1) \<Rightarrow> Some (Inl e, w1)
      | Some (Inr services, w1) \<Rightarrow>
          (case process_services_loop re_compile override dry_run test 0 services w1 of
             (Inl e, w2) \<Rightarrow> Some (Inl e, w2)
           | (Inr u, w2) \<Rightarrow> Some (Inr (), logging INFO ''Services processed.'' w2)))"

section \<open>Sample worlds\<close>

text \<open>
  A build host that answers the three listings with given bodies, accepts a creation and
  confirms a deletion with status 204 and no content.
\<close>

definition sample_server :: "body \<Rightarrow> body \<Rightarrow> body \<Rightarrow> request list \<Rightarrow> request \<Rightarrow> exn + response" where
  "sample_server branches schedules pipelines history r =
     (case verb r of
        GET \<Rightarrow>
          if params r = [(''q'', branch_query)]
          then Inr \<lparr>status_code = 200, reason = ''OK'', body = branches\<rparr>
          else if params r = [(''sort'', ''-created_on'')]
          then Inr \<lparr>status_code = 200, reason = ''OK'', body = pipelines\<rparr>
          else Inr \<lparr>status_code = 200, reason = ''OK'', body = schedules\<rparr>
      | POST \<Rightarrow> Inr \<lparr>status_code = 201, reason = ''Created'', body = Object None\<rparr>
      | DELETE \<Rightarrow> Inr \<lparr>status_code = 204, reason = ''No Content'', body = NotJson\<rparr>)"

definition sample_catalog :: "nat \<Rightarrow> exn + page" where
  "sample_catalog n =
     (if n = 0
      then Inr (Data [[''https://docs.example.com/a'',
                       ''https://bitbucket.org/acme/svc-a/src/main''],
                      [''https://bitbucket.org/acme/workspace/projects/X'']])
      else if n = 1
      then Inr (Data [[''https://bitbucket.org/acme/svc-b'']])
      else Inr (Data []))"

definition sample_world :: "body \<Rightarrow> body \<Rightarrow> body \<Rightarrow> world" where
  "sample_world branches schedules pipelines =
     \<lparr>SCHEDULE = ''0 0 13 ? * 7 *'', WORKSPACE = ''acme'',
      BB_USER_ID = Some ''bob'', BB_APP_PASS = Some ''secret'',
      server = sample_server branches schedules pipelines,
      sent = [], logged = [],
      catalog = sample_catalog, catalog_calls = [],
      wall_clock = (\<lambda>i k. sample_now)\<rparr>"

text \<open>A regular-expression engine for the sample patterns, which are made of lower-case
  letters, digits and hyphens: such a pattern is found in a string when it is a contiguous
  part of it. The engine takes no other pattern.\<close>

fun contains :: "string \<Rightarrow> string \<Rightarrow> bool" where
  "contains p [] = (p = [])"
| "contains p (c # s) = (take (length p) (c # s) = p \<or> contains p s)"

definition sample_engine :: regex_engine where
  "sample_engine p =
     (if list_all (\<lambda>c. c \<in> set ''abcdefghijklmnopqrstuvwxyz0123456789-'') p
      then Inr (contains p)
      else Inl RegexError)"

text \<open>The build host of four scenarios: a repository whose schedule already exists, one
  without a schedule, one whose schedule listing fails, and one that has neither a
  \<open>main\<close> nor a \<open>master\<close> branch.\<close>

definition world_with_schedule :: world where
  "world_with_schedule =
     sample_world (Object (Some [Branch ''main'']))
       (Object (Some [Schedule ''0 0 1 ? * 2 *'' ''main'' ''{a1}'',
                      Schedule ''0 0 13 ? * 7 *'' ''main'' ''{7d1e}'',
                      Schedule ''0 0 13 ? * 7 *'' ''main'' ''{c3}'']))
       (Object (Some [sample_push, sample_scheduled, sample_scheduled]))"

definition world_without_schedule :: world where
  "world_without_schedule =
     sample_world (Object (Some [Branch ''master'']))
       (Object (Some [Schedule ''0 0 1 ? * 2 *'' ''master'' ''{a1}'']))
       (Object (Some [sample_scheduled]))"

definition world_listing_fails :: world where
  "world_listing_fails =
     sample_world (Object (Some [Branch ''main''])) (ErrorEnvelope ''Repository not found'')
       NotJson"

definition world_no_default_branch :: world where
  "world_no_default_branch =
     sample_world (Object (Some [])) (Object (Some [])) (Object (Some [sample_scheduled]))"

section \<open>Notions the contracts are stated with\<close>

text \<open>The requests that change the remote state: every request that is not a \<open>GET\<close>.\<close>

definition mutations :: "world \<Rightarrow> request list" where
  "mutations w = filter (\<lambda>r. verb r \<noteq> GET) (sent w)"

definition is_schedule :: "item \<Rightarrow> bool" where
  "is_schedule x = (case x of Schedule c p u \<Rightarrow> True | _ \<Rightarrow> False)"

text \<open>A schedule with the fixed cron expression and the resolved default branch.\<close>

definition duplicate_of :: "world \<Rightarrow> string option \<Rightarrow> item \<Rightarrow> bool" where
  "duplicate_of w default_branch x = (schedule_matches w default_branch x = Inr True)"

text \<open>A pattern that compiles, and a pattern that compiles and is found in a string.\<close>

definition compiles :: "regex_engine \<Rightarrow> string \<Rightarrow> bool" where
  "compiles re_compile p = (case re_compile p of Inr f \<Rightarrow> True | Inl e \<Rightarrow> False)"

definition found_in :: "regex_engine \<Rightarrow> string \<Rightarrow> string \<Rightarrow> bool" where
  "found_in re_compile r p = (case re_compile p of Inr f \<Rightarrow> f r | Inl e \<Rightarrow> False)"

text \<open>
  A catalog entry with a path segment to extract; the segments of a page that the client
  keeps; a page that is not the last (it has entries, each with a segment).
\<close>

definition has_component :: "string list \<Rightarrow> bool" where
  "has_component service = (case url_component_4 service of Inr c \<Rightarrow> True | Inl e \<Rightarrow> False)"

definition kept :: "string list list \<Rightarrow> string list" where
  "kept data =
     filter (\<lambda>c. c \<noteq> ''workspace'')
       (concat (map (\<lambda>s. case url_component_4 s of Inr c \<Rightarrow> [c] | Inl e \<Rightarrow> []) data))"

definition full_page :: "(nat \<Rightarrow> exn + page) \<Rightarrow> nat \<Rightarrow> bool" where
  "full_page c k =
     (case c k of Inr (Data d) \<Rightarrow> d \<noteq> [] \<and> list_all has_component d | _ \<Rightarrow> False)"

definition kept_of_page :: "(nat \<Rightarrow> exn + page) \<Rightarrow> nat \<Rightarrow> string list" where
  "kept_of_page c k = (case c k of Inr (Data d) \<Rightarrow> kept d | _ \<Rightarrow> [])"

section \<open>Properties of the activity classifier\<close>

lemma first_some_Nil_iff: "first_some xs = None \<longleftrightarrow> (\<forall>x \<in> set xs. x = None)"
  by (induction xs rule: first_some.induct) auto

lemma first_some_SomeD: "first_some xs = Some y \<Longrightarrow> Some y \<in> set xs"
  by (induction xs rule: first_some.induct) auto

lemma replicate_numeral: "replicate (numeral k) x = x # replicate (pred_numeral k) x"
  by (simp add: numeral_eq_Suc)

lemmas parse_defs = strptime_def format_regex_def digits_def digits19_def is_digit_def
  is_space_def int_of_str_def digit_val_def pad6_def make_datetime_def days_in_month_def
  is_leap_def str_replace_def replicate_numeral

lemmas micros_defs = datetime_sub_def to_micros_def ymd2ord_def days_before_year_def
  days_before_month_def is_leap_def timedelta_minutes_def timedelta_weeks_def window_def

lemma creation_date_sample_push:
  "creation_date sample_push =
     Some \<lparr>year = 2024, month = 3, day = 9, hour = 8, minute = 15, second = 30,
           microsecond = 123456\<rparr>"
  by (simp add: creation_date_def sample_push_def parse_defs)

lemma creation_date_sample_scheduled:
  "creation_date sample_scheduled =
     Some \<lparr>year = 2024, month = 3, day = 9, hour = 13, minute = 0, second = 0,
           microsecond = 1\<rparr>"
  by (simp add: creation_date_def sample_scheduled_def parse_defs)

lemma creation_date_sample_old:
  "creation_date sample_old =
     Some \<lparr>year = 2024, month = 2, day = 20, hour = 9, minute = 30, second = 0,
           microsecond = 500000\<rparr>"
  by (simp add: creation_date_def sample_old_def parse_defs)

lemma within_window_samples:
  "within_window sample_now False sample_push"
  "within_window sample_now False sample_scheduled"
  "\<not> within_window sample_now False sample_old"
  by (simp_all add: within_window_def creation_date_sample_push
      creation_date_sample_scheduled creation_date_sample_old sample_now_def micros_defs)

lemma other_trigger_samples:
  "other_trigger sample_push" "\<not> other_trigger sample_scheduled" "other_trigger sample_old"
  by (simp_all add: other_trigger_def sample_push_def sample_scheduled_def sample_old_def)

lemma loop_verdict:
  assumes "list_all (\<lambda>p. creation_date p \<noteq> None) E" and "r \<le> 1"
  shows "check_development_status_loop (\<lambda>_. now) test i r E =
           Inr (2 \<le> r + length (filter (within_window now test) E)
                \<or> list_ex (\<lambda>p. within_window now test p \<and> other_trigger p) E)"
  using assms
proof (induction E arbitrary: i r)
  case Nil
  then show ?case by simp
next
  case (Cons p E)
  from Cons.prems obtain c t d where p: "p = Pipeline c t"
    and d: "strptime (str_replace (CHR ''Z'') '''' (str_replace (CHR ''T'') '' '' c)) = Inr d"
    by (auto simp: creation_date_def split: item.splits sum.splits)
  have cd: "creation_date p = Some d" by (simp add: p d creation_date_def)
  have rest: "list_all (\<lambda>p. creation_date p \<noteq> None) E" using Cons.prems by simp
  show ?case
  proof (cases "datetime_sub now d \<le> window test")
    case False
    then have nw: "\<not> within_window now test p" by (simp add: within_window_def cd)
    show ?thesis using False nw Cons.IH[OF rest Cons.prems(2)]
      by (simp add: p d created_on_def window_def)
  next
    case True
    then have w: "within_window now test p" by (simp add: within_window_def cd)
    show ?thesis
    proof (cases "t \<noteq> ''SCHEDULE'' \<or> r + 1 > 1")
      case True
      then show ?thesis using w \<open>datetime_sub now d \<le> window test\<close> Cons.prems(2)
        by (auto simp: p d created_on_def trigger_name_def window_def other_trigger_def)
    next
      case False
      then have r0: "r = 0" and t: "t = ''SCHEDULE''" by auto
      have "check_development_status_loop (\<lambda>_. now) test (i + 1) (r + 1) E =
           Inr (2 \<le> (r + 1) + length (filter (within_window now test) E)
                \<or> list_ex (\<lambda>p. within_window now test p \<and> other_trigger p) E)"
        by (rule Cons.IH[OF rest]) (simp add: r0)
      then show ?thesis using w \<open>datetime_sub now d \<le> window test\<close> r0 t
        by (simp add: p d created_on_def trigger_name_def window_def other_trigger_def)
    qed
  qed
qed

lemma verdict:
  assumes "list_all (\<lambda>p. creation_date p \<noteq> None) E"
  shows "check_development_status (\<lambda>_. now) E test = Inr (in_development now test E)"
  using loop_verdict[OF assms, of 0 now test 0]
  by (simp add: check_development_status_def in_development_def)

lemma in_development_mset:
  assumes "mset E = mset E'"
  shows "in_development now test E = in_development now test E'"
proof -
  have "length (filter P E) = length (filter P E')" for P :: "item \<Rightarrow> bool"
  proof -
    have "mset (filter P E) = mset (filter P E')" using assms by (metis mset_filter)
    then show ?thesis by (rule mset_eq_length)
  qed
  moreover have "set E = set E'" using assms by (rule mset_eq_setD)
  ultimately show ?thesis by (simp add: in_development_def list_ex_iff)
qed

lemma loop_verdict_at:
  assumes "list_all (\<lambda>p. creation_date p \<noteq> None) E" and "r \<le> 1"
  shows "check_development_status_loop clock test i r E =
           Inr (2 \<le> r + length (filter (\<lambda>(j, p). within_window (clock j) test p)
                                 (enumerate i E))
                \<or> list_ex (\<lambda>(j, p). within_window (clock j) test p \<and> other_trigger p)
                     (enumerate i E))"
  using assms
proof (induction E arbitrary: i r)
  case Nil
  then show ?case by simp
next
  case (Cons p E)
  from Cons.prems obtain c t d where p: "p = Pipeline c t"
    and d: "strptime (str_replace (CHR ''Z'') '''' (str_replace (CHR ''T'') '' '' c)) = Inr d"
    by (auto simp: creation_date_def split: item.splits sum.splits)
  have cd: "creation_date p = Some d" by (simp add: p d creation_date_def)
  have rest: "list_all (\<lambda>p. creation_date p \<noteq> None) E" using Cons.prems by simp
  show ?case
  proof (cases "datetime_sub (clock i) d \<le> window test")
    case False
    then have nw: "\<not> within_window (clock i) test p" by (simp add: within_window_def cd)
    show ?thesis using False nw Cons.IH[OF rest Cons.prems(2), of "Suc i"]
      by (simp add: p d created_on_def window_def)
  next
    case True
    then have w: "within_window (clock i) test p" by (simp add: within_window_def cd)
    show ?thesis
    proof (cases "t \<noteq> ''SCHEDULE'' \<or> r + 1 > 1")
      case True
      then show ?thesis using w \<open>datetime_sub (clock i) d \<le> window test\<close> Cons.prems(2)
        by (auto simp: p d created_on_def trigger_name_def window_def other_trigger_def)
    next
      case False
      then have r0: "r = 0" and t: "t = ''SCHEDULE''" by auto
      have "check_development_status_loop clock test (Suc i) (r + 1) E =
           Inr (2 \<le> (r + 1) + length (filter (\<lambda>(j, p). within_window (clock j) test p)
                                 (enumerate (Suc i) E))
                \<or> list_ex (\<lambda>(j, p). within_window (clock j) test p \<and> other_trigger p)
                     (enumerate (Suc i) E))"
        by (rule Cons.IH[OF rest]) (simp add: r0)
      then show ?thesis using w \<open>datetime_sub (clock i) d \<le> window test\<close> r0 t
        by (simp add: p d created_on_def trigger_name_def window_def other_trigger_def)
    qed
  qed
qed

lemma verdict_at:
  assumes "list_all (\<lambda>p. creation_date p \<noteq> None) E"
  shows "check_development_status clock E test = Inr (in_development_at clock test E)"
  using loop_verdict_at[OF assms, of 0 clock test 0]
  by (simp add: check_development_status_def in_development_at_def)

lemma steady_in_development:
  assumes "steady clock test E"
  shows "in_development_at clock test E = in_development (clock 0) test E"
proof -
  have eq: "within_window (clock j) test p = within_window (clock 0) test p"
    if "(j, p) \<in> set (enumerate 0 E)" for j p
  proof -
    from that have "j < length E" and "p \<in> set E"
      by (auto simp: in_set_enumerate_eq)
    with assms show ?thesis by (simp add: steady_def list_all_iff)
  qed
  have img: "snd ` set (enumerate 0 E) = set E"
    by (metis map_snd_enumerate set_map)
  have f: "filter (\<lambda>(j, p). within_window (clock j) test p) (enumerate 0 E)
         = filter (within_window (clock 0) test \<circ> snd) (enumerate 0 E)"
    by (rule filter_cong) (auto simp: eq)
  have "length (filter (Q \<circ> snd) xs) = length (filter Q (map snd xs))"
    for Q :: "item \<Rightarrow> bool" and xs :: "(nat \<times> item) list"
    by (simp add: filter_map)
  from this[of "within_window (clock 0) test" "enumerate 0 E"] have l: "length (filter (\<lambda>(j, p). within_window (clock j) test p) (enumerate 0 E))
         = length (filter (within_window (clock 0) test) E)"
    by (simp add: f)
  have "list_ex (\<lambda>(j, p). within_window (clock j) test p \<and> other_trigger p) (enumerate 0 E)
        \<longleftrightarrow> (\<exists>x \<in> set (enumerate 0 E). within_window (clock 0) test (snd x) \<and> other_trigger (snd x))"
    unfolding list_ex_iff
  proof (rule bex_cong[OF refl])
    fix x
    assume x: "x \<in> set (enumerate 0 E)"
    obtain j p where jp: "x = (j, p)" by (cases x)
    from x show "(case x of (j, p) \<Rightarrow> within_window (clock j) test p \<and> other_trigger p)
               = (within_window (clock 0) test (snd x) \<and> other_trigger (snd x))"
      unfolding jp by (simp add: eq)
  qed
  also have "\<dots> \<longleftrightarrow> (\<exists>p \<in> snd ` set (enumerate 0 E).
                        within_window (clock 0) test p \<and> other_trigger p)"
    by blast
  also have "\<dots> \<longleftrightarrow> list_ex (\<lambda>p. within_window (clock 0) test p \<and> other_trigger p) E"
    by (simp only: img list_ex_iff)
  finally show ?thesis by (simp add: in_development_at_def in_development_def l)
qed

lemma steady_mset:
  assumes "mset E = mset E'" and "steady clock test E"
  shows "steady clock test E'"
proof -
  have "set E = set E'" using assms(1) by (rule mset_eq_setD)
  moreover have "length E = length E'" using assms(1) by (rule mset_eq_length)
  ultimately show ?thesis using assms(2) by (simp add: steady_def list_all_iff)
qed

lemma creation_date_sample_edge:
  "creation_date sample_edge =
     Some \<lparr>year = 2024, month = 3, day = 3, hour = 12, minute = 0, second = 0,
           microsecond = 0\<rparr>"
  by (simp add: creation_date_def sample_edge_def parse_defs)

lemma within_window_ticking:
  "within_window (ticking_clock 0) False sample_edge"
  "\<not> within_window (ticking_clock (Suc 0)) False sample_edge"
  "within_window (ticking_clock 0) False sample_scheduled"
  "within_window (ticking_clock (Suc 0)) False sample_scheduled"
  "within_window (ticking_clock 0) False sample_push"
  "within_window (ticking_clock (Suc 0)) False sample_push"
  by (simp_all add: within_window_def creation_date_sample_edge creation_date_sample_push
      creation_date_sample_scheduled ticking_clock_def sample_now_def micros_defs)

lemma other_trigger_sample_edge: "\<not> other_trigger sample_edge"
  by (simp add: other_trigger_def sample_edge_def)

lemma ticking_edge_first:
  "check_development_status ticking_clock [sample_edge, sample_scheduled] False = Inr True"
proof -
  have "list_all (\<lambda>p. creation_date p \<noteq> None) [sample_edge, sample_scheduled]"
    by (simp add: creation_date_sample_edge creation_date_sample_scheduled)
  from verdict_at[OF this, of ticking_clock False] show ?thesis
    by (simp add: in_development_at_def within_window_ticking)
qed

lemma ticking_edge_second:
  "check_development_status ticking_clock [sample_scheduled, sample_edge] False = Inr False"
proof -
  have "list_all (\<lambda>p. creation_date p \<noteq> None) [sample_scheduled, sample_edge]"
    by (simp add: creation_date_sample_edge creation_date_sample_scheduled)
  from verdict_at[OF this, of ticking_clock False] show ?thesis
    by (simp add: in_development_at_def within_window_ticking other_trigger_samples
        other_trigger_sample_edge)
qed

text \<open>
  C1, as the code has it. The loop reads the clock in every iteration, so each execution is
  judged against the reading of its own iteration. When every timestamp of \<open>E\<close> is one the
  parser accepts, the classifier returns "in development" if and only if two or more
  executions fall within the window of their own reading, or some execution within the
  window of its own reading has a trigger kind other than \<open>SCHEDULE\<close>. When no execution
  enters or leaves the window between the readings (in particular when the clock stands
  at one instant), this is the condition counted at the first reading. An empty \<open>E\<close>, and
  then an \<open>E\<close> whose only execution within the window is a scheduled one, give "not in
  development".
\<close>

theorem classifier_verdict_per_reading:
  assumes "list_all (\<lambda>p. creation_date p \<noteq> None) E"
  shows "check_development_status clock E test =
           Inr (2 \<le> length (filter (\<lambda>(i, p). within_window (clock i) test p) (enumerate 0 E))
                \<or> list_ex (\<lambda>(i, p). within_window (clock i) test p \<and> other_trigger p)
                     (enumerate 0 E))
         \<and> check_development_status clock [] test = Inr False
         \<and> (steady clock test E \<longrightarrow>
              check_development_status clock E test =
                Inr (2 \<le> length (filter (within_window (clock 0) test) E)
                     \<or> list_ex (\<lambda>p. within_window (clock 0) test p \<and> other_trigger p) E))
         \<and> (steady clock test E \<and> filter (within_window (clock 0) test) E = [s]
              \<and> \<not> other_trigger s \<longrightarrow>
              check_development_status clock E test = Inr False)"
proof (intro conjI impI)
  show "check_development_status clock E test =
           Inr (2 \<le> length (filter (\<lambda>(i, p). within_window (clock i) test p) (enumerate 0 E))
                \<or> list_ex (\<lambda>(i, p). within_window (clock i) test p \<and> other_trigger p)
                     (enumerate 0 E))"
    using verdict_at[OF assms] by (simp add: in_development_at_def)
  show "check_development_status clock [] test = Inr False"
    by (simp add: check_development_status_def)
  show v: "check_development_status clock E test =
                Inr (2 \<le> length (filter (within_window (clock 0) test) E)
                     \<or> list_ex (\<lambda>p. within_window (clock 0) test p \<and> other_trigger p) E)"
    if "steady clock test E"
    using verdict_at[OF assms, of clock test] steady_in_development[OF that]
    by (simp add: in_development_def)
  assume a: "steady clock test E \<and> filter (within_window (clock 0) test) E = [s]
              \<and> \<not> other_trigger s"
  have "\<not> list_ex (\<lambda>p. within_window (clock 0) test p \<and> other_trigger p) E"
  proof
    assume "list_ex (\<lambda>p. within_window (clock 0) test p \<and> other_trigger p) E"
    then obtain p where "p \<in> set E" "within_window (clock 0) test p" "other_trigger p"
      by (auto simp: list_ex_iff)
    then have "p \<in> set (filter (within_window (clock 0) test) E)" by simp
    with a have "p = s" by simp
    with a \<open>other_trigger p\<close> show False by simp
  qed
  with a show "check_development_status clock E test = Inr False"
    by (simp add: v)
qed

theorem classifier_verdict_per_reading_witness:
  "list_all (\<lambda>p. creation_date p \<noteq> None) [sample_edge, sample_scheduled]
   \<and> check_development_status ticking_clock [sample_edge, sample_scheduled] False = Inr True
   \<and> list_all (\<lambda>p. creation_date p \<noteq> None) [sample_old, sample_scheduled]
   \<and> steady (\<lambda>_. sample_now) False [sample_old, sample_scheduled]
   \<and> check_development_status (\<lambda>_. sample_now) [sample_old, sample_scheduled] False
       = Inr False"
proof -
  have p1: "list_all (\<lambda>p. creation_date p \<noteq> None) [sample_edge, sample_scheduled]"
    by (simp add: creation_date_sample_edge creation_date_sample_scheduled)
  have p2: "list_all (\<lambda>p. creation_date p \<noteq> None) [sample_old, sample_scheduled]"
    by (simp add: creation_date_sample_old creation_date_sample_scheduled)
  have st: "steady (\<lambda>_. sample_now) False [sample_old, sample_scheduled]"
    by (simp add: steady_def)
  have 1: "check_development_status ticking_clock [sample_edge, sample_scheduled] False
             = Inr True"
    using classifier_verdict_per_reading[OF p1, of ticking_clock False, THEN conjunct1]
    by (simp add: within_window_ticking)
  have 2: "check_development_status (\<lambda>_. sample_now) [sample_old, sample_scheduled] False
             = Inr False"
    using classifier_verdict_per_reading[OF p2, of "\<lambda>_. sample_now" False,
        THEN conjunct2, THEN conjunct2, THEN conjunct1, THEN mp, OF st]
    by (simp add: within_window_samples other_trigger_samples)
  from p1 1 p2 st 2 show ?thesis by (intro conjI)
qed

text \<open>
  C1 as the specification words it, with one evaluation instant for the whole list, does
  not hold. With a clock that advances by a microsecond between two readings and an
  execution created exactly one window before the first reading: both executions are
  within the window of the first reading, yet the list with that execution last is "not
  in development"; only one is within the window of the second reading, yet the list with
  that execution first is "in development".
\<close>

theorem classifier_verdict_ticking_clock:
  "check_development_status ticking_clock [sample_scheduled, sample_edge] False = Inr False
   \<and> in_development (ticking_clock 0) False [sample_scheduled, sample_edge]
   \<and> check_development_status ticking_clock [sample_edge, sample_scheduled] False = Inr True
   \<and> \<not> in_development (ticking_clock (Suc 0)) False [sample_edge, sample_scheduled]"
  by (simp add: ticking_edge_first ticking_edge_second in_development_def
      within_window_ticking other_trigger_samples other_trigger_sample_edge)

text \<open>
  C7, as the code has it. When every timestamp of \<open>E\<close> is one the parser accepts and no
  execution of \<open>E\<close> enters or leaves the window between the clock readings of the loop (in
  particular when the clock stands at one instant), a permutation of \<open>E\<close> gets the same
  verdict as \<open>E\<close>.
\<close>

theorem classifier_order_independent_steady:
  assumes "mset E = mset E'" and "list_all (\<lambda>p. creation_date p \<noteq> None) E"
    and "steady clock test E"
  shows "check_development_status clock E test = check_development_status clock E' test"
proof -
  have "set E = set E'" using assms(1) by (rule mset_eq_setD)
  with assms(2) have p: "list_all (\<lambda>p. creation_date p \<noteq> None) E'"
    by (simp add: list_all_iff)
  have s: "steady clock test E'" using assms(1,3) by (rule steady_mset)
  show ?thesis
    using verdict_at[OF assms(2), of clock test] verdict_at[OF p, of clock test]
      steady_in_development[OF assms(3)] steady_in_development[OF s]
      in_development_mset[OF assms(1), of "clock 0" test]
    by simp
qed

theorem classifier_order_independent_steady_witness:
  "mset [sample_scheduled, sample_push] = mset [sample_push, sample_scheduled]
   \<and> list_all (\<lambda>p. creation_date p \<noteq> None) [sample_scheduled, sample_push]
   \<and> steady ticking_clock False [sample_scheduled, sample_push]
   \<and> check_development_status ticking_clock [sample_scheduled, sample_push] False = Inr True
   \<and> check_development_status ticking_clock [sample_push, sample_scheduled] False = Inr True"
proof -
  have m: "mset [sample_scheduled, sample_push] = mset [sample_push, sample_scheduled]"
    by (simp add: add.commute)
  have p: "list_all (\<lambda>p. creation_date p \<noteq> None) [sample_scheduled, sample_push]"
    by (simp add: creation_date_sample_push creation_date_sample_scheduled)
  have st: "steady ticking_clock False [sample_scheduled, sample_push]"
    by (simp add: steady_def upt_conv_Cons within_window_ticking)
  have "list_all (\<lambda>p. creation_date p \<noteq> None) [sample_push, sample_scheduled]"
    by (simp add: creation_date_sample_push creation_date_sample_scheduled)
  from verdict_at[OF this, of ticking_clock False]
  have 2: "check_development_status ticking_clock [sample_push, sample_scheduled] False
             = Inr True"
    by (simp add: in_development_at_def within_window_ticking other_trigger_samples)
  have 1: "check_development_status ticking_clock [sample_scheduled, sample_push] False
             = Inr True"
    using classifier_order_independent_steady[OF m p st] 2 by simp
  from m p st 1 2 show ?thesis by (intro conjI)
qed

text \<open>
  C7 as the specification words it does not hold when the clock advances during the loop:
  the two orders of the same two executions get different verdicts.
\<close>

theorem classifier_order_dependent_ticking_clock:
  "mset [sample_edge, sample_scheduled] = mset [sample_scheduled, sample_edge]
   \<and> check_development_status ticking_clock [sample_edge, sample_scheduled] False = Inr True
   \<and> check_development_status ticking_clock [sample_scheduled, sample_edge] False
       = Inr False"
  by (simp add: ticking_edge_first ticking_edge_second add.commute)

subsection \<open>Timestamps the parser rejects\<close>

text \<open>A match of a regular expression contains every literal character of the expression.\<close>

lemma re_match_Lit:
  "re_match ps s = Some (gs, r) \<Longrightarrow> Lit c \<in> set ps \<Longrightarrow> c \<in> set s"
proof (induction ps s arbitrary: gs r rule: re_match.induct)
  case (1 s)
  then show ?case by simp
next
  case (2 c' ps s)
  then show ?case by (auto split: list.splits if_splits)
next
  case (3 alts ps s)
  from "3.prems"(1) have "Some (gs, r) \<in> set (map (\<lambda>alt.
        if fits alt s
        then (case re_match ps (drop (length alt) s) of
                None \<Rightarrow> None
              | Some (gs, r) \<Rightarrow> Some (take (length alt) s # gs, r))
        else None) alts)"
    by (simp only: re_match.simps first_some_SomeD)
  then obtain alt gs' r' where alt: "alt \<in> set alts" "fits alt s"
    and m: "re_match ps (drop (length alt) s) = Some (gs', r')"
    by (auto split: if_splits option.splits)
  with "3.IH"[OF alt m] "3.prems"(2) have "c \<in> set (drop (length alt) s)" by simp
  then show ?case by (rule in_set_dropD)
next
  case (4 ps s)
  from "4.prems"(1) have "Some (gs, r) \<in> set (map (\<lambda>k. re_match ps (drop k s))
        (rev [1 ..< Suc (length (takeWhile is_space s))]))"
    by (simp only: re_match.simps first_some_SomeD)
  then obtain k where k: "k \<in> set (rev [1 ..< Suc (length (takeWhile is_space s))])"
    and m: "re_match ps (drop k s) = Some (gs, r)"
    unfolding set_map by (elim imageE) (rule that, assumption, rule sym, assumption)
  with "4.IH"[OF k m] "4.prems"(2) have "c \<in> set (drop k s)" by simp
  then show ?case by (rule in_set_dropD)
next
  case (5 ps s)
  from "5.prems"(1) have "Some (gs, r) \<in> set (map (\<lambda>k.
        case re_match ps (drop k s) of
          None \<Rightarrow> None
        | Some (gs, r) \<Rightarrow> Some (take k s # gs, r))
        (rev [1 ..< Suc (min 6 (length (takeWhile is_digit s)))]))"
    by (simp only: re_match.simps first_some_SomeD)
  then obtain k where k: "k \<in> set (rev [1 ..< Suc (min 6 (length (takeWhile is_digit s)))])"
    and "Some (gs, r) = (case re_match ps (drop k s) of
          None \<Rightarrow> None
        | Some (gs, r) \<Rightarrow> Some (take k s # gs, r))"
    unfolding set_map by (elim imageE) (rule that, assumption, assumption)
  then obtain gs' r' where m: "re_match ps (drop k s) = Some (gs', r')"
    by (cases "re_match ps (drop k s)") auto
  with "5.IH"[OF k m] "5.prems"(2) have "c \<in> set (drop k s)" by simp
  then show ?case by (rule in_set_dropD)
qed

lemma strptime_needs_dot:
  assumes "CHR ''.'' \<notin> set s"
  shows "strptime s = Inl ValueError"
proof -
  have "re_match format_regex s = None"
  proof (cases "re_match format_regex s")
    case None
    then show ?thesis .
  next
    case (Some x)
    obtain gs r where "x = (gs, r)" by (cases x)
    with Some have "re_match format_regex s = Some (gs, r)" by simp
    moreover have "Lit (CHR ''.'') \<in> set format_regex" by (simp add: format_regex_def)
    ultimately have "CHR ''.'' \<in> set s" by (rule re_match_Lit)
    with assms show ?thesis by simp
  qed
  then show ?thesis by (simp add: strptime_def)
qed

lemma str_replace_set: "c \<notin> set s \<Longrightarrow> c \<notin> set b \<Longrightarrow> c \<notin> set (str_replace a b s)"
  by (induction s) (auto simp: str_replace_def)

lemma loop_total:
  assumes "list_all (\<lambda>p. creation_date p \<noteq> None) E"
  shows "\<exists>v. check_development_status_loop clock test i r E = Inr v"
  using assms
proof (induction E arbitrary: i r)
  case Nil
  show ?case by (intro exI[of _ False]) simp
next
  case (Cons p E)
  from Cons.prems obtain c t d where p: "p = Pipeline c t"
    and d: "strptime (str_replace (CHR ''Z'') '''' (str_replace (CHR ''T'') '' '' c)) = Inr d"
    by (auto simp: creation_date_def split: item.splits sum.splits)
  have rest: "list_all (\<lambda>p. creation_date p \<noteq> None) E" using Cons.prems by simp
  show ?case using Cons.IH[OF rest]
    by (auto simp: p d created_on_def trigger_name_def Let_def)
qed

text \<open>
  C10. The classifier does not return a verdict on every input. It raises \<open>ValueError\<close>
  (the parse error) when the first execution's timestamp has no fractional-second part
  (no \<open>.\<close> in it), whatever the clock and the rest of the list; it returns a verdict
  whenever every timestamp of the list is one the parser accepts.
\<close>

theorem classifier_partial:
  "(CHR ''.'' \<notin> set ts \<longrightarrow>
      check_development_status clock (Pipeline ts trig # rest) test = Inl ValueError)
   \<and> (list_all (\<lambda>p. creation_date p \<noteq> None) E \<longrightarrow>
      (\<exists>v. check_development_status clock E test = Inr v))"
proof (intro conjI impI)
  assume "CHR ''.'' \<notin> set ts"
  then have "CHR ''.'' \<notin> set (str_replace (CHR ''Z'') '''' (str_replace (CHR ''T'') '' '' ts))"
    by (intro str_replace_set) simp_all
  then have "strptime (str_replace (CHR ''Z'') '''' (str_replace (CHR ''T'') '' '' ts))
               = Inl ValueError"
    by (rule strptime_needs_dot)
  then show "check_development_status clock (Pipeline ts trig # rest) test = Inl ValueError"
    by (simp add: check_development_status_def created_on_def)
next
  assume "list_all (\<lambda>p. creation_date p \<noteq> None) E"
  then show "\<exists>v. check_development_status clock E test = Inr v"
    unfolding check_development_status_def by (rule loop_total)
qed

theorem classifier_partial_witness:
  "CHR ''.'' \<notin> set ''2024-03-09T08:15:30Z''
   \<and> check_development_status (\<lambda>_. sample_now)
        (Pipeline ''2024-03-09T08:15:30Z'' ''PUSH'' # [sample_scheduled]) False
       = Inl ValueError
   \<and> list_all (\<lambda>p. creation_date p \<noteq> None) [sample_old, sample_scheduled]
   \<and> (\<exists>v. check_development_status (\<lambda>_. sample_now) [sample_old, sample_scheduled] False
            = Inr v)"
  using classifier_partial [of "''2024-03-09T08:15:30Z''" "\<lambda>_. sample_now" "''PUSH''"
          "[sample_scheduled]" False "[sample_old, sample_scheduled]"]
  by (simp add: creation_date_sample_scheduled creation_date_sample_old)

section \<open>Properties of the override filter\<close>

lemma match_override_all:
  assumes "list_all (compiles re) P"
  shows "match_override re r P = Inr (list_ex (found_in re r) P)"
  using assms
  by (induction P) (auto simp: compiles_def found_in_def split: sum.splits)


text \<open>
  C8. For patterns that compile, \<open>match_override\<close> answers true if and only if some pattern
  of the list, compiled, is found in the identifier by \<open>search\<close>; with no pattern it
  answers false.
\<close>

theorem match_override_iff:
  assumes "list_all (compiles re_compile) P"
  shows "match_override re_compile r P = Inr (list_ex (found_in re_compile r) P)
         \<and> match_override re_compile r [] = Inr False"
  using match_override_all[OF assms] by simp

theorem match_override_iff_witness:
  "list_all (compiles sample_engine) [''zzz'', ''svc-'', ''api'']
   \<and> match_override sample_engine ''my-svc-a'' [''zzz'', ''svc-'', ''api''] = Inr True
   \<and> list_all (compiles sample_engine) [''zzz'', ''api'']
   \<and> match_override sample_engine ''my-svc-a'' [''zzz'', ''api''] = Inr False"
  using match_override_iff [of sample_engine "[''zzz'', ''svc-'', ''api'']" "''my-svc-a''"]
        match_override_iff [of sample_engine "[''zzz'', ''api'']" "''my-svc-a''"]
  by (simp add: compiles_def found_in_def sample_engine_def)

section \<open>Properties of the schedule repository\<close>

lemmas world_defs = get_default_branch_def get_schedules_def get_latest_pipelines_def
  requests_request_def logging_def sample_world_def sample_server_def branch_query_def
  repositories_url_def get_bitbucket_credentials_def schedule_matches_def
  world_with_schedule_def world_without_schedule_def world_listing_fails_def
  world_no_default_branch_def

lemma logging_fields [simp]:
  "sent (logging l m w) = sent w" "SCHEDULE (logging l m w) = SCHEDULE w"
  "WORKSPACE (logging l m w) = WORKSPACE w" "server (logging l m w) = server w"
  "catalog (logging l m w) = catalog w" "catalog_calls (logging l m w) = catalog_calls w"
  "wall_clock (logging l m w) = wall_clock w"
  "logged (logging l m w) = logged w @ [(l, m)]"
  by (simp_all add: logging_def)

lemma mutations_logging [simp]: "mutations (logging l m w) = mutations w"
  by (simp add: mutations_def)

lemma schedule_matches_logging [simp]:
  "schedule_matches (logging l m w) b x = schedule_matches w b x"
  by (cases x) (simp_all add: schedule_matches_def)

lemma get_default_branch_mutations:
  "get_default_branch repo w = (r, w') \<Longrightarrow> mutations w' = mutations w"
  by (auto simp: get_default_branch_def requests_request_def mutations_def
      split: sum.splits body.splits option.splits list.splits item.splits prod.splits)

lemma get_schedules_mutations:
  "get_schedules repo w = (r, w') \<Longrightarrow> mutations w' = mutations w"
  by (auto simp: get_schedules_def requests_request_def mutations_def Let_def
      split: sum.splits body.splits option.splits list.splits item.splits prod.splits)

lemma get_latest_pipelines_mutations:
  "get_latest_pipelines repo w = (r, w') \<Longrightarrow> mutations w' = mutations w"
  by (auto simp: get_latest_pipelines_def requests_request_def mutations_def Let_def
      split: sum.splits body.splits option.splits list.splits item.splits prod.splits)

lemma create_schedule_loop_result:
  assumes "list_all is_schedule scheds"
  shows "create_schedule_loop b scheds w =
     (if list_ex (duplicate_of w b) scheds
      then (Inr Returned,
            logging ERROR ''Failed to create scheduled pipeline: this schedule already exists.'' w)
      else (Inr Completed, w))"
  using assms
  by (induction scheds)
     (auto simp: is_schedule_def duplicate_of_def schedule_matches_def
        split: item.splits bool.splits)

lemma create_schedule_loop_mutations:
  "create_schedule_loop b scheds w = (r, w') \<Longrightarrow> mutations w' = mutations w"
  by (induction scheds) (auto split: sum.splits bool.splits if_splits)


lemma delete_schedule_loop_result:
  assumes "list_all is_schedule scheds"
  shows "sent (snd (delete_schedule_loop repo b scheds w)) =
           sent w @ (case find (duplicate_of w b) scheds of
                       None \<Rightarrow> []
                     | Some s \<Rightarrow> [delete_request w repo (schedule_uuid_of s)])
         \<and> (find (duplicate_of w b) scheds = None \<longrightarrow>
              delete_schedule_loop repo b scheds w = (Inr Completed, w))"
  using assms
proof (induction scheds)
  case Nil
  then show ?case by simp
next
  case (Cons x scheds)
  then obtain c p u where x: "x = Schedule c p u"
    by (auto simp: is_schedule_def split: item.splits)
  show ?case
  proof (cases "duplicate_of w b x")
    case True
    then have m: "schedule_matches w b x = Inr True" by (simp add: duplicate_of_def)
    show ?thesis using True
      by (auto simp: m requests_request_def split: sum.splits body.splits prod.splits)
  next
    case False
    then have m: "schedule_matches w b x = Inr False"
      by (simp add: duplicate_of_def schedule_matches_def x)
    show ?thesis using False Cons by (simp add: m)
  qed
qed


text \<open>
  C3. \<open>create_schedule\<close> does not return normally when the schedule listing fails: the
  listing returns \<open>None\<close> and the loop over it raises \<open>TypeError\<close>.
\<close>

theorem create_schedule_raises_when_listing_fails:
  "fst (create_schedule ''svc-c'' False world_listing_fails) = Inl TypeError"
  by (simp add: create_schedule_def world_defs)

text \<open>
  C4. \<open>get_default_branch\<close> raises \<open>IndexError\<close>, and does not return \<open>None\<close>, when the
  repository has neither a \<open>main\<close> nor a \<open>master\<close> branch (the listing is empty).
\<close>

theorem get_default_branch_raises_without_branch:
  "fst (get_default_branch ''svc-x'' world_no_default_branch) = Inl IndexError"
  by (simp add: world_defs)

lemma create_schedule_dry_run_mutations:
  "mutations (snd (create_schedule repo True w)) = mutations w"
proof -
  let ?w0 = "logging DEBUG (''Creating scheduled pipeline for repo: '' @ repo @ ''...'') w"
  obtain r1 w1 where g1: "get_default_branch repo ?w0 = (r1, w1)" by (cases "get_default_branch repo ?w0")
  obtain r2 w2 where g2: "get_schedules repo w1 = (r2, w2)" by (cases "get_schedules repo w1")
  have m1: "mutations w1 = mutations w" using get_default_branch_mutations[OF g1] by simp
  have m2: "mutations w2 = mutations w" using get_schedules_mutations[OF g2] m1 by simp
  show ?thesis
  proof (cases r1)
    case (Inl e)
    then show ?thesis using g1 by (simp add: create_schedule_def m1)
  next
    case (Inr b)
    show ?thesis
    proof (cases r2)
      case (Inl e)
      then show ?thesis using g1 g2 Inr by (simp add: create_schedule_def m2)
    next
      case r2: (Inr so)
      show ?thesis
      proof (cases so)
        case None
        then show ?thesis using g1 g2 Inr r2 by (simp add: create_schedule_def m2)
      next
        case (Some scheds)
        obtain r3 w3 where g3: "create_schedule_loop b scheds w2 = (r3, w3)"
          by (cases "create_schedule_loop b scheds w2")
        have m3: "mutations w3 = mutations w" using create_schedule_loop_mutations[OF g3] m2 by simp
        show ?thesis using g1 g2 Inr r2 Some g3
          by (cases r3) (auto simp: create_schedule_def m3 split: flow.splits)
      qed
    qed
  qed
qed

text \<open>
  C5, as the code has it. \<open>create_schedule\<close> checks for a duplicate before it looks at the
  dry-run flag. When both lookups succeed and a schedule with the fixed cron expression and
  the resolved default branch exists, it logs that the schedule already exists and does
  nothing else, in dry-run mode as in the other; when no such schedule exists, the dry run
  logs the eligibility. A dry run sends no request that changes the remote state.
\<close>

theorem create_schedule_dry_run:
  assumes gdb: "get_default_branch repo
            (logging DEBUG (''Creating scheduled pipeline for repo: '' @ repo @ ''...'') w)
          = (Inr b, w1)"
    and gs: "get_schedules repo w1 = (Inr (Some scheds), w2)"
    and sch: "list_all is_schedule scheds"
  shows "(list_ex (duplicate_of w2 b) scheds \<longrightarrow>
            create_schedule repo dry_run w =
              (Inr (), logging ERROR
                 ''Failed to create scheduled pipeline: this schedule already exists.'' w2))
         \<and> (\<not> list_ex (duplicate_of w2 b) scheds \<longrightarrow>
            create_schedule repo True w =
              (Inr (), logging INFO (''Eligible for Scheduling: '' @ repo) w2))
         \<and> mutations (snd (create_schedule repo True w)) = mutations w"
  using create_schedule_loop_result[OF sch, of b w2] gdb gs
    create_schedule_dry_run_mutations[of repo w]
  by (simp add: create_schedule_def)

theorem create_schedule_dry_run_witness:
  "fst (create_schedule ''svc-d'' True world_with_schedule) = Inr ()
   \<and> logged (snd (create_schedule ''svc-d'' True world_with_schedule)) =
       [(DEBUG, ''Creating scheduled pipeline for repo: svc-d...''),
        (DEBUG, ''Retrieving scheduled pipelines for repo: svc-d...''),
        (ERROR, ''Failed to create scheduled pipeline: this schedule already exists.'')]
   \<and> logged (snd (create_schedule ''svc-b'' True world_without_schedule)) =
       [(DEBUG, ''Creating scheduled pipeline for repo: svc-b...''),
        (DEBUG, ''Retrieving scheduled pipelines for repo: svc-b...''),
        (INFO, ''Eligible for Scheduling: svc-b'')]
   \<and> mutations (snd (create_schedule ''svc-b'' True world_without_schedule)) = []"
proof -
  let ?S = "[Schedule ''0 0 1 ? * 2 *'' ''main'' ''{a1}'',
             Schedule ''0 0 13 ? * 7 *'' ''main'' ''{7d1e}'',
             Schedule ''0 0 13 ? * 7 *'' ''main'' ''{c3}'']"
  let ?w0 = "logging DEBUG (''Creating scheduled pipeline for repo: '' @ ''svc-d'' @ ''...'')
               world_with_schedule"
  let ?w1 = "snd (get_default_branch ''svc-d'' ?w0)"
  let ?w2 = "snd (get_schedules ''svc-d'' ?w1)"
  have gdb: "get_default_branch ''svc-d'' ?w0 = (Inr (Some ''main''), ?w1)"
    by (simp add: world_defs)
  have gs: "get_schedules ''svc-d'' ?w1 = (Inr (Some ?S), ?w2)"
    by (simp add: world_defs)
  have sch: "list_all is_schedule ?S" by (simp add: is_schedule_def)
  have dup: "list_ex (duplicate_of ?w2 (Some ''main'')) ?S"
    by (simp add: duplicate_of_def world_defs)
  let ?T = "[Schedule ''0 0 1 ? * 2 *'' ''master'' ''{a1}'']"
  let ?v0 = "logging DEBUG (''Creating scheduled pipeline for repo: '' @ ''svc-b'' @ ''...'')
               world_without_schedule"
  let ?v1 = "snd (get_default_branch ''svc-b'' ?v0)"
  let ?v2 = "snd (get_schedules ''svc-b'' ?v1)"
  have gdb': "get_default_branch ''svc-b'' ?v0 = (Inr (Some ''master''), ?v1)"
    by (simp add: world_defs)
  have gs': "get_schedules ''svc-b'' ?v1 = (Inr (Some ?T), ?v2)"
    by (simp add: world_defs)
  have sch': "list_all is_schedule ?T" by (simp add: is_schedule_def)
  have nodup: "\<not> list_ex (duplicate_of ?v2 (Some ''master'')) ?T"
    by (simp add: duplicate_of_def world_defs)
  have a: "create_schedule ''svc-d'' True world_with_schedule =
        (Inr (), logging ERROR
           ''Failed to create scheduled pipeline: this schedule already exists.'' ?w2)"
    using create_schedule_dry_run[OF gdb gs sch, of True] dup by blast
  have b: "create_schedule ''svc-b'' True world_without_schedule =
        (Inr (), logging INFO (''Eligible for Scheduling: '' @ ''svc-b'') ?v2)"
    and c: "mutations (snd (create_schedule ''svc-b'' True world_without_schedule))
              = mutations world_without_schedule"
    using create_schedule_dry_run[OF gdb' gs' sch', of True] nodup by blast+
  have m: "mutations world_without_schedule = []"
    by (simp add: mutations_def world_defs)
  have 1: "fst (create_schedule ''svc-d'' True world_with_schedule) = Inr ()"
    by (simp only: a fst_conv)
  have 2: "logged (snd (create_schedule ''svc-d'' True world_with_schedule)) =
       [(DEBUG, ''Creating scheduled pipeline for repo: svc-d...''),
        (DEBUG, ''Retrieving scheduled pipelines for repo: svc-d...''),
        (ERROR, ''Failed to create scheduled pipeline: this schedule already exists.'')]"
    unfolding a by (simp add: world_defs)
  have 3: "logged (snd (create_schedule ''svc-b'' True world_without_schedule)) =
       [(DEBUG, ''Creating scheduled pipeline for repo: svc-b...''),
        (DEBUG, ''Retrieving scheduled pipelines for repo: svc-b...''),
        (INFO, ''Eligible for Scheduling: svc-b'')]"
    unfolding b by (simp add: world_defs)
  have 4: "mutations (snd (create_schedule ''svc-b'' True world_without_schedule)) = []"
    by (simp only: c m)
  from 1 2 3 4 show ?thesis by (intro conjI)
qed

text \<open>
  C5 as the specification words it does not hold: a dry run on a repository whose schedule
  already exists does not log the eligibility; it logs that the schedule already exists.
\<close>

theorem create_schedule_dry_run_duplicate:
  "(INFO, ''Eligible for Scheduling: svc-d'')
     \<notin> set (logged (snd (create_schedule ''svc-d'' True world_with_schedule)))
   \<and> (ERROR, ''Failed to create scheduled pipeline: this schedule already exists.'')
     \<in> set (logged (snd (create_schedule ''svc-d'' True world_with_schedule)))"
  by (simp add: create_schedule_def world_defs)

text \<open>
  What \<open>delete_schedule\<close> does when both lookups return and every entry of the listing is a
  schedule: it sends, after the lookups, one deletion request for the first schedule with
  the fixed cron expression and the resolved default branch, and nothing else; in a dry
  run, or when no schedule matches, it sends nothing. When no schedule matches it returns
  normally. In all, it adds at most one request that changes the remote state.
\<close>

lemma delete_schedule_requests:
  assumes gdb: "get_default_branch repo
            (logging DEBUG (''Deleting scheduled pipeline for repo: '' @ repo @ ''...'') w)
          = (Inr b, w1)"
    and gs: "get_schedules repo w1 = (Inr (Some scheds), w2)"
    and sch: "list_all is_schedule scheds"
  shows "sent (snd (delete_schedule repo dry_run w)) =
           sent w2 @ (if dry_run then []
                      else (case find (duplicate_of w2 b) scheds of
                              None \<Rightarrow> []
                            | Some s \<Rightarrow> [delete_request w2 repo (schedule_uuid_of s)]))
         \<and> (find (duplicate_of w2 b) scheds = None \<longrightarrow>
              fst (delete_schedule repo dry_run w) = Inr ()
              \<and> mutations (snd (delete_schedule repo dry_run w)) = mutations w)
         \<and> length (mutations (snd (delete_schedule repo dry_run w))) \<le> length (mutations w) + 1"
proof -
  note l = delete_schedule_loop_result[OF sch, of repo b w2]
  have s: "sent (snd (delete_schedule repo dry_run w)) =
           sent w2 @ (if dry_run then []
                      else (case find (duplicate_of w2 b) scheds of
                              None \<Rightarrow> []
                            | Some s \<Rightarrow> [delete_request w2 repo (schedule_uuid_of s)]))"
    using l gdb gs by (cases "delete_schedule_loop repo b scheds w2")
      (auto simp: delete_schedule_def split: sum.splits flow.splits)
  have m2: "mutations w2 = mutations w"
    using get_default_branch_mutations[OF gdb] get_schedules_mutations[OF gs] by simp
  have r: "fst (delete_schedule repo dry_run w) = Inr ()"
    if "find (duplicate_of w2 b) scheds = None"
  proof -
    from that l have "delete_schedule_loop repo b scheds w2 = (Inr Completed, w2)" by simp
    then show ?thesis using gdb gs by (simp add: delete_schedule_def)
  qed
  have m: "mutations (snd (delete_schedule repo dry_run w)) =
             mutations w @ filter (\<lambda>r. verb r \<noteq> GET)
               (if dry_run then []
                else (case find (duplicate_of w2 b) scheds of
                        None \<Rightarrow> []
                      | Some s \<Rightarrow> [delete_request w2 repo (schedule_uuid_of s)]))"
    using m2 by (simp add: mutations_def s)
  have n: "mutations (snd (delete_schedule repo dry_run w)) = mutations w"
    if "find (duplicate_of w2 b) scheds = None"
    using that by (simp add: m)
  have le: "length (mutations (snd (delete_schedule repo dry_run w))) \<le> length (mutations w) + 1"
    by (simp add: m split: option.splits)
  from s r n le show ?thesis by blast
qed

lemma delete_schedule_requests_sample:
  "mutations (snd (delete_schedule ''svc-a'' False world_with_schedule)) =
     [delete_request world_with_schedule ''svc-a'' ''{7d1e}'']
   \<and> fst (delete_schedule ''svc-b'' False world_without_schedule) = Inr ()
   \<and> mutations (snd (delete_schedule ''svc-b'' False world_without_schedule)) = []"
proof -
  let ?S = "[Schedule ''0 0 1 ? * 2 *'' ''main'' ''{a1}'',
             Schedule ''0 0 13 ? * 7 *'' ''main'' ''{7d1e}'',
             Schedule ''0 0 13 ? * 7 *'' ''main'' ''{c3}'']"
  let ?w0 = "logging DEBUG (''Deleting scheduled pipeline for repo: '' @ ''svc-a'' @ ''...'')
               world_with_schedule"
  let ?w1 = "snd (get_default_branch ''svc-a'' ?w0)"
  let ?w2 = "snd (get_schedules ''svc-a'' ?w1)"
  have gdb: "get_default_branch ''svc-a'' ?w0 = (Inr (Some ''main''), ?w1)"
    by (simp add: world_defs)
  have gs: "get_schedules ''svc-a'' ?w1 = (Inr (Some ?S), ?w2)"
    by (simp add: world_defs)
  have sch: "list_all is_schedule ?S" by (simp add: is_schedule_def)
  have f: "find (duplicate_of ?w2 (Some ''main'')) ?S
             = Some (Schedule ''0 0 13 ? * 7 *'' ''main'' ''{7d1e}'')"
    by (simp add: duplicate_of_def world_defs)
  let ?T = "[Schedule ''0 0 1 ? * 2 *'' ''master'' ''{a1}'']"
  let ?v0 = "logging DEBUG (''Deleting scheduled pipeline for repo: '' @ ''svc-b'' @ ''...'')
               world_without_schedule"
  let ?v1 = "snd (get_default_branch ''svc-b'' ?v0)"
  let ?v2 = "snd (get_schedules ''svc-b'' ?v1)"
  have gdb': "get_default_branch ''svc-b'' ?v0 = (Inr (Some ''master''), ?v1)"
    by (simp add: world_defs)
  have gs': "get_schedules ''svc-b'' ?v1 = (Inr (Some ?T), ?v2)"
    by (simp add: world_defs)
  have sch': "list_all is_schedule ?T" by (simp add: is_schedule_def)
  have f': "find (duplicate_of ?v2 (Some ''master'')) ?T = None"
    by (simp add: duplicate_of_def world_defs)
  have a: "sent (snd (delete_schedule ''svc-a'' False world_with_schedule)) =
             sent ?w2 @ [delete_request ?w2 ''svc-a''
                           (schedule_uuid_of (Schedule ''0 0 13 ? * 7 *'' ''main'' ''{7d1e}''))]"
    using delete_schedule_requests[OF gdb gs sch, of False] f by simp
  have b: "fst (delete_schedule ''svc-b'' False world_without_schedule) = Inr ()"
    and c: "mutations (snd (delete_schedule ''svc-b'' False world_without_schedule))
              = mutations world_without_schedule"
    using delete_schedule_requests[OF gdb' gs' sch', of False] f' by blast+
  have m: "mutations world_without_schedule = []"
    by (simp add: mutations_def world_defs)
  have 1: "mutations (snd (delete_schedule ''svc-a'' False world_with_schedule)) =
     [delete_request world_with_schedule ''svc-a'' ''{7d1e}'']"
    unfolding mutations_def a
    by (simp add: world_defs delete_request_def schedule_uuid_of_def)
  have 2: "mutations (snd (delete_schedule ''svc-b'' False world_without_schedule)) = []"
    by (simp only: c m)
  from 1 b 2 show ?thesis by (intro conjI)
qed

text \<open>
  C6. \<open>delete_schedule\<close> raises when the repository has neither a \<open>main\<close> nor a \<open>master\<close>
  branch, also when no schedule matches (here the repository has no schedule at all): the
  default-branch lookup it starts with raises \<open>IndexError\<close>, in a dry run as in the other
  mode.
\<close>

theorem delete_schedule_raises_without_branch:
  "fst (get_schedules ''svc-x'' world_no_default_branch) = Inr (Some [])
   \<and> fst (delete_schedule ''svc-x'' False world_no_default_branch) = Inl IndexError
   \<and> fst (delete_schedule ''svc-x'' True world_no_default_branch) = Inl IndexError"
  by (simp add: delete_schedule_def world_defs)

section \<open>Properties of the reconciler\<close>

text \<open>
  C2. For a repository that the override filter does not exclude and whose build history
  is fetched without an exception: when the history is absent or empty, the step logs that
  it skips the repository, sends no request that changes the remote state, and the loop
  goes on with the next repository; otherwise the step is exactly a call of
  \<open>delete_schedule\<close> when the classifier's verdict is "in development", and exactly a
  call of \<open>create_schedule\<close> when it is "not in development".
\<close>

theorem reconciler_step:
  assumes ov: "overridden re_compile override service = Inr False"
    and fetch: "get_latest_pipelines service
                 (logging INFO (''Processing service: '' @ service @ ''...'') w) = (Inr ps, w1)"
  shows "(ps = None \<or> ps = Some [] \<longrightarrow>
            process_service re_compile override dry_run test i service w =
              (Inr (), logging INFO (''No pipelines found in repo for service: '' @ service
                         @ ''. Skipping...'') w1)
            \<and> mutations (snd (process_service re_compile override dry_run test i service w))
                = mutations w
            \<and> process_services_loop re_compile override dry_run test i (service # rest) w =
                process_services_loop re_compile override dry_run test (i + 1) rest
                  (logging INFO (''No pipelines found in repo for service: '' @ service
                         @ ''. Skipping...'') w1))
         \<and> (ps = Some E \<and> E \<noteq> []
              \<and> check_development_status (wall_clock w1 i) E test = Inr True \<longrightarrow>
            process_service re_compile override dry_run test i service w =
              delete_schedule service dry_run w1)
         \<and> (ps = Some E \<and> E \<noteq> []
              \<and> check_development_status (wall_clock w1 i) E test = Inr False \<longrightarrow>
            process_service re_compile override dry_run test i service w =
              create_schedule service dry_run w1)"
proof (intro conjI impI)
  assume a: "ps = None \<or> ps = Some []"
  show skip: "process_service re_compile override dry_run test i service w =
             (Inr (), logging INFO (''No pipelines found in repo for service: '' @ service
                        @ ''. Skipping...'') w1)"
    using a fetch by (auto simp: process_service_def ov)
  show "mutations (snd (process_service re_compile override dry_run test i service w))
          = mutations w"
    using get_latest_pipelines_mutations[OF fetch] by (simp add: skip)
  show "process_services_loop re_compile override dry_run test i (service # rest) w =
           process_services_loop re_compile override dry_run test (i + 1) rest
             (logging INFO (''No pipelines found in repo for service: '' @ service
                        @ ''. Skipping...'') w1)"
    by (simp add: skip)
next
  assume "ps = Some E \<and> E \<noteq> [] \<and> check_development_status (wall_clock w1 i) E test = Inr True"
  then show "process_service re_compile override dry_run test i service w =
               delete_schedule service dry_run w1"
    using fetch by (cases E) (auto simp: process_service_def ov)
next
  assume "ps = Some E \<and> E \<noteq> [] \<and> check_development_status (wall_clock w1 i) E test = Inr False"
  then show "process_service re_compile override dry_run test i service w =
               create_schedule service dry_run w1"
    using fetch by (cases E) (auto simp: process_service_def ov)
qed

theorem reconciler_step_witness:
  "overridden sample_engine (Some [''zzz'']) ''svc-c'' = Inr False
   \<and> fst (get_latest_pipelines ''svc-c''
        (logging INFO (''Processing service: '' @ ''svc-c'' @ ''...'') world_listing_fails))
       = Inr None
   \<and> fst (process_service sample_engine (Some [''zzz'']) False False 0 ''svc-c''
            world_listing_fails) = Inr ()
   \<and> mutations (snd (process_service sample_engine (Some [''zzz'']) False False 0 ''svc-c''
            world_listing_fails)) = []
   \<and> fst (get_latest_pipelines ''svc-b''
        (logging INFO (''Processing service: '' @ ''svc-b'' @ ''...'') world_without_schedule))
       = Inr (Some [sample_scheduled])
   \<and> process_service sample_engine (Some [''zzz'']) False False 0 ''svc-b''
        world_without_schedule
       = create_schedule ''svc-b'' False
           (snd (get_latest_pipelines ''svc-b''
              (logging INFO (''Processing service: '' @ ''svc-b'' @ ''...'')
                 world_without_schedule)))"
proof -
  let ?w0 = "logging INFO (''Processing service: '' @ ''svc-c'' @ ''...'') world_listing_fails"
  let ?w1 = "snd (get_latest_pipelines ''svc-c'' ?w0)"
  have ov: "overridden sample_engine (Some [''zzz'']) ''svc-c'' = Inr False"
    by (simp add: overridden_def sample_engine_def)
  have fetch: "get_latest_pipelines ''svc-c'' ?w0 = (Inr None, ?w1)"
    by (simp add: world_defs)
  have m: "mutations world_listing_fails = []" by (simp add: mutations_def world_defs)
  have absent: "(None :: item list option) = None \<or> (None :: item list option) = Some []"
    by simp
  note s = reconciler_step[OF ov fetch, where i = 0 and dry_run = False and test = False,
      THEN conjunct1, THEN mp, OF absent]
  have s1: "process_service sample_engine (Some [''zzz'']) False False 0 ''svc-c''
            world_listing_fails =
              (Inr (), logging INFO (''No pipelines found in repo for service: '' @ ''svc-c''
                         @ ''. Skipping...'') ?w1)"
    by (rule s[THEN conjunct1])
  have s2: "mutations (snd (process_service sample_engine (Some [''zzz'']) False False 0
            ''svc-c'' world_listing_fails)) = mutations world_listing_fails"
    by (rule s[THEN conjunct2, THEN conjunct1])
  have 1: "fst (process_service sample_engine (Some [''zzz'']) False False 0 ''svc-c''
            world_listing_fails) = Inr ()"
    by (simp only: s1 fst_conv)
  have 2: "mutations (snd (process_service sample_engine (Some [''zzz'']) False False 0
            ''svc-c'' world_listing_fails)) = []"
    by (simp only: s2 m)
  let ?v0 = "logging INFO (''Processing service: '' @ ''svc-b'' @ ''...'')
               world_without_schedule"
  let ?v1 = "snd (get_latest_pipelines ''svc-b'' ?v0)"
  have ov': "overridden sample_engine (Some [''zzz'']) ''svc-b'' = Inr False"
    by (simp add: overridden_def sample_engine_def)
  have fetch': "get_latest_pipelines ''svc-b'' ?v0 = (Inr (Some [sample_scheduled]), ?v1)"
    by (simp add: world_defs)
  have clk: "wall_clock ?v1 0 = (\<lambda>_. sample_now)" by (simp add: world_defs)
  have "list_all (\<lambda>p. creation_date p \<noteq> None) [sample_scheduled]"
    by (simp add: creation_date_sample_scheduled)
  then have "check_development_status (\<lambda>_. sample_now) [sample_scheduled] False
               = Inr (in_development sample_now False [sample_scheduled])"
    by (rule verdict)
  then have v: "check_development_status (wall_clock ?v1 0) [sample_scheduled] False = Inr False"
    by (simp only: clk) (simp add: in_development_def within_window_samples other_trigger_samples)
  have present: "Some [sample_scheduled] = Some [sample_scheduled] \<and> [sample_scheduled] \<noteq> []
      \<and> check_development_status (wall_clock ?v1 0) [sample_scheduled] False = Inr False"
    using v by simp
  have 3: "process_service sample_engine (Some [''zzz'']) False False 0 ''svc-b''
        world_without_schedule = create_schedule ''svc-b'' False ?v1"
    by (rule reconciler_step[OF ov' fetch', where E = "[sample_scheduled]" and i = 0
        and dry_run = False and test = False, THEN conjunct2, THEN conjunct2, THEN mp,
        OF present])
  have 4: "fst (get_latest_pipelines ''svc-c'' ?w0) = Inr None" by (simp add: world_defs)
  have 5: "fst (get_latest_pipelines ''svc-b'' ?v0) = Inr (Some [sample_scheduled])"
    by (simp add: world_defs)
  from ov 4 1 2 5 3 show ?thesis by (intro conjI)
qed

section \<open>Properties of the service catalog client\<close>

lemma collect_services_kept:
  "list_all has_component data \<Longrightarrow> collect_services data acc = Inr (acc @ kept data)"
  by (induction data arbitrary: acc)
     (auto simp: has_component_def kept_def split: sum.splits)

lemma collect_services_no_workspace:
  "collect_services data acc = Inr s \<Longrightarrow> ''workspace'' \<notin> set acc \<Longrightarrow> ''workspace'' \<notin> set s"
  by (induction data arbitrary: acc) (auto split: sum.splits if_splits)

lemma loop_no_workspace:
  "get_active_services_loop fuel p acc w = Some (Inr services, w') \<Longrightarrow>
   ''workspace'' \<notin> set acc \<Longrightarrow> ''workspace'' \<notin> set services"
proof (induction fuel arbitrary: p acc w)
  case 0
  then show ?case by simp
next
  case (Suc fuel)
  show ?case
  proof (cases "catalog w p")
    case (Inl e)
    with Suc.prems show ?thesis by simp
  next
    case (Inr pg)
    show ?thesis
    proof (cases pg)
      case (Errors es)
      with Inr Suc.prems show ?thesis by (auto simp: Let_def split: list.splits)
    next
      case (Data d)
      show ?thesis
      proof (cases "collect_services d acc")
        case (Inl e)
        with Inr Data Suc.prems show ?thesis by simp
      next
        case c: (Inr s)
        then have s: "''workspace'' \<notin> set s"
          using Suc.prems(2) by (rule collect_services_no_workspace)
        show ?thesis
        proof (cases "d = []")
          case True
          with Inr Data c Suc.prems s show ?thesis by auto
        next
          case False
          with Inr Data c Suc.prems(1)
          have "get_active_services_loop fuel (p + 1) s
                  (w\<lparr>catalog_calls := catalog_calls w @ [p]\<rparr>) = Some (Inr services, w')"
            by simp
          then show ?thesis using s by (rule Suc.IH)
        qed
      qed
    qed
  qed
qed

lemma loop_pages:
  assumes "list_all (full_page (catalog w)) [p ..< n]"
    and "catalog w n = Inr (Data [])"
    and "p \<le> n" and "n - p < fuel"
  shows "get_active_services_loop fuel p acc w =
           Some (Inr (acc @ concat (map (kept_of_page (catalog w)) [p ..< n])),
                 w\<lparr>catalog_calls := catalog_calls w @ [p ..< Suc n]\<rparr>)"
  using assms
proof (induction fuel arbitrary: p acc w)
  case 0
  then show ?case by simp
next
  case (Suc fuel)
  show ?case
  proof (cases "p = n")
    case True
    with Suc.prems(2) show ?thesis by simp
  next
    case False
    with Suc.prems(3) have lt: "p < n" by simp
    then have up: "[p ..< n] = p # [Suc p ..< n]" by (rule upt_conv_Cons)
    from Suc.prems(1) up have fp: "full_page (catalog w) p"
      and rest: "list_all (full_page (catalog w)) [Suc p ..< n]" by simp_all
    from fp obtain d where d: "catalog w p = Inr (Data d)" "d \<noteq> []" "list_all has_component d"
      by (auto simp: full_page_def split: sum.splits page.splits)
    let ?w1 = "w\<lparr>catalog_calls := catalog_calls w @ [p]\<rparr>"
    have c: "collect_services d acc = Inr (acc @ kept d)"
      using d(3) by (rule collect_services_kept)
    have "get_active_services_loop fuel (Suc p) (acc @ kept d) ?w1 =
           Some (Inr ((acc @ kept d) @ concat (map (kept_of_page (catalog ?w1)) [Suc p ..< n])),
                 ?w1\<lparr>catalog_calls := catalog_calls ?w1 @ [Suc p ..< Suc n]\<rparr>)"
      using rest Suc.prems(2) lt Suc.prems(4) by (intro Suc.IH) simp_all
    moreover have "[p ..< Suc n] = p # [Suc p ..< Suc n]" using lt by (simp add: upt_conv_Cons)
    moreover have "kept_of_page (catalog w) p = kept d" using d by (simp add: kept_of_page_def)
    ultimately show ?thesis using d c up
      by (simp del: upt_Suc)
  qed
qed

text \<open>
  C9. A non-empty list from the caller is returned as it is and the world is left as it
  was: no page of the catalog is asked for. Without such a list the client pages through
  the catalog, and no identifier it returns is \<open>workspace\<close>. When page \<open>n\<close> is the first
  empty page and the pages before it have entries, each with a path segment, then with
  fuel for more than \<open>n\<close> pages the client asks for the pages \<open>0\<close> to \<open>n\<close> in order and
  returns the segments of the entries, in order, without those equal to \<open>workspace\<close>.
\<close>

theorem enumeration:
  "active_services fuel (Some (r # rs)) w = Some (Inr (r # rs), w)
   \<and> active_services fuel None w = get_active_services fuel w
   \<and> active_services fuel (Some []) w = get_active_services fuel w
   \<and> (get_active_services fuel w = Some (Inr services, w') \<longrightarrow>
        ''workspace'' \<notin> set services)
   \<and> (list_all (full_page (catalog w)) [0 ..< n] \<and> catalog w n = Inr (Data []) \<and> n < fuel \<longrightarrow>
        get_active_services fuel w =
          Some (Inr (concat (map (kept_of_page (catalog w)) [0 ..< n])),
                (logging INFO ''Retrieving active services...'' w)
                  \<lparr>catalog_calls := catalog_calls w @ [0 ..< Suc n]\<rparr>))"
proof (intro conjI impI)
  show "active_services fuel (Some (r # rs)) w = Some (Inr (r # rs), w)"
    by (simp add: active_services_def)
  show "active_services fuel None w = get_active_services fuel w"
    by (simp add: active_services_def)
  show "active_services fuel (Some []) w = get_active_services fuel w"
    by (simp add: active_services_def)
next
  assume "get_active_services fuel w = Some (Inr services, w')"
  then show "''workspace'' \<notin> set services"
    unfolding get_active_services_def by (rule loop_no_workspace) simp
next
  let ?w0 = "logging INFO ''Retrieving active services...'' w"
  assume a: "list_all (full_page (catalog w)) [0 ..< n] \<and> catalog w n = Inr (Data []) \<and> n < fuel"
  have "get_active_services_loop fuel 0 [] ?w0 =
           Some (Inr ([] @ concat (map (kept_of_page (catalog ?w0)) [0 ..< n])),
                 ?w0\<lparr>catalog_calls := catalog_calls ?w0 @ [0 ..< Suc n]\<rparr>)"
    using a by (intro loop_pages) simp_all
  then show "get_active_services fuel w =
          Some (Inr (concat (map (kept_of_page (catalog w)) [0 ..< n])),
                ?w0\<lparr>catalog_calls := catalog_calls w @ [0 ..< Suc n]\<rparr>)"
    by (simp add: get_active_services_def del: upt_Suc)
qed

theorem enumeration_witness:
  "active_services 5 (Some [''svc-q'', ''workspace'']) world_listing_fails
     = Some (Inr [''svc-q'', ''workspace''], world_listing_fails)
   \<and> list_all (full_page (catalog world_listing_fails)) [0 ..< 2]
   \<and> catalog world_listing_fails 2 = Inr (Data [])
   \<and> get_active_services 5 world_listing_fails =
       Some (Inr [''svc-a'', ''svc-b''],
             (logging INFO ''Retrieving active services...'' world_listing_fails)
               \<lparr>catalog_calls := [0, 1, 2]\<rparr>)
   \<and> ''workspace'' \<notin> set [''svc-a'', ''svc-b'']"
proof -
  have c: "catalog world_listing_fails = sample_catalog" by (simp add: world_defs)
  have calls: "catalog_calls world_listing_fails = []" by (simp add: world_defs)
  have l2: "[0 ..< 2] = [0, 1]" and u: "[0 ..< Suc 2] = [0, 1, 2]"
    by (simp_all add: upt_conv_Cons)
  have p: "list_all (full_page (catalog world_listing_fails)) [0 ..< 2]"
    unfolding c l2
    by (simp add: full_page_def sample_catalog_def has_component_def url_component_4_def)
  have e: "catalog world_listing_fails 2 = Inr (Data [])"
    unfolding c by (simp add: sample_catalog_def)
  have k: "concat (map (kept_of_page (catalog world_listing_fails)) [0 ..< 2])
             = [''svc-a'', ''svc-b'']"
    unfolding c l2
    by (simp add: kept_of_page_def kept_def sample_catalog_def url_component_4_def)
  have lt: "(2::nat) < 5" by simp
  note t = enumeration[where fuel = 5 and r = "''svc-q''" and rs = "[''workspace'']"
      and w = world_listing_fails and services = "[''svc-a'', ''svc-b'']"
      and w' = "(logging INFO ''Retrieving active services...'' world_listing_fails)
               \<lparr>catalog_calls := [0, 1, 2]\<rparr>" and n = 2]
  have 1: "active_services 5 (Some [''svc-q'', ''workspace'']) world_listing_fails
     = Some (Inr [''svc-q'', ''workspace''], world_listing_fails)"
    by (rule t[THEN conjunct1])
  have 2: "get_active_services 5 world_listing_fails =
       Some (Inr [''svc-a'', ''svc-b''],
             (logging INFO ''Retrieving active services...'' world_listing_fails)
               \<lparr>catalog_calls := [0, 1, 2]\<rparr>)"
    using t[THEN conjunct2, THEN conjunct2, THEN conjunct2, THEN conjunct2, THEN mp,
        OF conjI[OF p conjI[OF e lt]]]
    by (simp only: k u calls append_Nil)
  have 3: "''workspace'' \<notin> set [''svc-a'', ''svc-b'']"
    by (rule t[THEN conjunct2, THEN conjunct2, THEN conjunct2, THEN conjunct1, THEN mp, OF 2])
  from 1 p e 2 3 show ?thesis by (intro conjI)
qed

end
